theory Spec2Isabelle
  imports Complex_Main "HOL-Library.List_Lexorder" "HOL-Library.Log_Nat"
begin

section \<open>Strings, exceptions and the platform\<close>

text \<open>
  A Python \<^verbatim>\<open>str\<close> is a sequence of Unicode code points, so data strings are lists of
  code points and \<^verbatim>\<open>len\<close> is \<open>length\<close>. The ASCII literals of the program text
  (difference kinds, encoding names, Unicode names and categories) are HOL strings.
\<close>

type_synonym codepoint = nat
type_synonym pystr = "codepoint list"

datatype py_exception =
  TypeError | KeyError | IndexError | ZeroDivisionError | OverflowError | LoaderException pystr

text \<open>
  \<^verbatim>\<open>str.isspace\<close> and \<^verbatim>\<open>str.strip\<close> of CPython use one fixed table of
  whitespace code points (bidirectional class WS, B or S, or category Zs); it is small
  enough to be written out.
\<close>

definition isspace_cp :: "codepoint \<Rightarrow> bool" where
  "isspace_cp c \<longleftrightarrow>
     (0x09 \<le> c \<and> c \<le> 0x0D) \<or> (0x1C \<le> c \<and> c \<le> 0x20) \<or> c = 0x85 \<or> c = 0xA0 \<or>
     c = 0x1680 \<or> (0x2000 \<le> c \<and> c \<le> 0x200A) \<or> c = 0x2028 \<or> c = 0x2029 \<or>
     c = 0x202F \<or> c = 0x205F \<or> c = 0x3000"

definition isspace :: "pystr \<Rightarrow> bool" where
  "isspace s \<longleftrightarrow> s \<noteq> [] \<and> list_all isspace_cp s"

text \<open>\<^verbatim>\<open>ord\<close> accepts a string of length one only.\<close>

fun py_ord :: "pystr \<Rightarrow> py_exception + codepoint" where
  "py_ord [c] = Inr c"
| "py_ord _ = Inl TypeError"

text \<open>
  What the program takes from the Unicode database and the codecs of the interpreter is a
  parameter of the model: \<^verbatim>\<open>isprintable\<close>, \<^verbatim>\<open>unicodedata.category\<close>,
  \<^verbatim>\<open>unicodedata.name\<close> (\<open>None\<close> where it raises ValueError), \<^verbatim>\<open>repr\<close>,
  \<^verbatim>\<open>str.lower\<close>, \<^verbatim>\<open>str.encode\<close> (\<open>Inl\<close> the message of the
  UnicodeEncodeError), the \<^verbatim>\<open>repr\<close> of a bytes object, and the order in which a
  \<^verbatim>\<open>for\<close> loop visits the set built from the given elements.
\<close>

record platform =
  isprintable_cp :: "codepoint \<Rightarrow> bool"
  category_cp :: "codepoint \<Rightarrow> string"
  name_cp :: "codepoint \<Rightarrow> string option"
  py_repr :: "pystr \<Rightarrow> pystr"
  py_lower :: "pystr \<Rightarrow> pystr"
  py_encode :: "string \<Rightarrow> pystr \<Rightarrow> pystr + nat list"
  bytes_repr :: "nat list \<Rightarrow> pystr"
  set_order :: "pystr list \<Rightarrow> pystr list"

section \<open>analyzer.py: CharacterAnalyzer\<close>

subsection \<open>The table of special characters\<close>

text \<open>
  \<^verbatim>\<open>self.special_chars\<close>, in the order of the source; each key is a one-character
  string, given by its code point, each value the name as code points.
\<close>

definition special_chars_table :: "(codepoint \<times> pystr) list" where
  "special_chars_table =
    [(0x0020, [0x666E, 0x901A, 0x7A7A, 0x683C]),
     (0x00A0, [0x4E0D, 0x95F4, 0x65AD, 0x7A7A, 0x683C]),
     (0x2009, [0x7EC6, 0x7A7A, 0x683C]),
     (0x200A, [0x53D1, 0x4E1D, 0x7A7A, 0x683C]),
     (0x200B, [0x96F6, 0x5BBD, 0x7A7A, 0x683C]),
     (0x200C, [0x96F6, 0x5BBD, 0x975E, 0x8FDE, 0x5B57, 0x7B26]),
     (0x200D, [0x96F6, 0x5BBD, 0x8FDE, 0x5B57, 0x7B26]),
     (0x2028, [0x884C, 0x5206, 0x9694, 0x7B26]),
     (0x2029, [0x6BB5, 0x5206, 0x9694, 0x7B26]),
     (0x202F, [0x7A84, 0x4E0D, 0x95F4, 0x65AD, 0x7A7A, 0x683C]),
     (0x205F, [0x4E2D, 0x7B49, 0x6570, 0x5B66, 0x7A7A, 0x683C]),
     (0x3000, [0x4E2D, 0x6587, 0x7A7A, 0x683C]),
     (0x0009, [0x5236, 0x8868, 0x7B26]),
     (0x000A, [0x6362, 0x884C, 0x7B26]),
     (0x000D, [0x56DE, 0x8F66, 0x7B26]),
     (0x000C, [0x6362, 0x9875, 0x7B26]),
     (0x000B, [0x5782, 0x76F4, 0x5236, 0x8868, 0x7B26]),
     (0x2010, [0x8FDE, 0x5B57, 0x7B26]),
     (0x2011, [0x4E0D, 0x95F4, 0x65AD, 0x8FDE, 0x5B57, 0x7B26]),
     (0x2012, [0x6570, 0x5B57, 0x77ED, 0x6A2A, 0x7EBF]),
     (0x2013, [0x77ED, 0x7834, 0x6298, 0x53F7]),
     (0x2014, [0x957F, 0x7834, 0x6298, 0x53F7]),
     (0x2015, [0x6C34, 0x5E73, 0x7EBF]),
     (0x2018, [0x5DE6, 0x5355, 0x5F15, 0x53F7]),
     (0x2019, [0x53F3, 0x5355, 0x5F15, 0x53F7]),
     (0x201A, [0x4E0B, 0x5355, 0x5F15, 0x53F7]),
     (0x201B, [0x4E0A, 0x5355, 0x5F15, 0x53F7]),
     (0x201C, [0x5DE6, 0x53CC, 0x5F15, 0x53F7]),
     (0x201D, [0x53F3, 0x53CC, 0x5F15, 0x53F7]),
     (0x201E, [0x4E0B, 0x53CC, 0x5F15, 0x53F7]),
     (0x201F, [0x4E0A, 0x53CC, 0x5F15, 0x53F7])]"

definition special_chars :: "codepoint \<rightharpoonup> pystr" where
  "special_chars = map_of special_chars_table"

subsection \<open>get_char_info\<close>

definition hex_digit :: "nat \<Rightarrow> char" where
  "hex_digit d = ''0123456789ABCDEF'' ! d"

fun upper_hex :: "nat \<Rightarrow> string" where
  "upper_hex n = (if n < 16 then [hex_digit n] else upper_hex (n div 16) @ [hex_digit (n mod 16)])"

declare upper_hex.simps [simp del]

text \<open>The format \<^verbatim>\<open>:04X\<close>: upper-case hexadecimal, padded with zeros to four digits.\<close>

definition format_04X :: "nat \<Rightarrow> string" where
  "format_04X n = (let s = upper_hex n in replicate (4 - length s) (CHR ''0'') @ s)"

record char_info =
  ci_char :: pystr
  ci_ord :: codepoint
  ci_hex :: string
  ci_repr :: pystr
  ci_name :: pystr
  ci_unicode_name :: string
  ci_category :: string
  ci_is_printable :: bool
  ci_is_space :: bool
  ci_is_control :: bool
  ci_is_invisible :: bool

text \<open>The dictionary \<^verbatim>\<open>get_char_info\<close> returns: \<^verbatim>\<open>{}\<close> or the eleven fields.\<close>

datatype info_dict = EmptyDict | Info char_info

definition get_char_info :: "platform \<Rightarrow> pystr \<Rightarrow> py_exception + info_dict" where
  "get_char_info P char =
     (if char = [] then Inr EmptyDict
      else case py_ord char of
        Inl e \<Rightarrow> Inl e
      | Inr c \<Rightarrow>
          Inr (Info \<lparr>
            ci_char = char,
            ci_ord = c,
            ci_hex = ''U+'' @ format_04X c,
            ci_repr = py_repr P char,
            ci_name = (case special_chars c of Some n \<Rightarrow> n | None \<Rightarrow> []),
            ci_unicode_name = (case name_cp P c of Some n \<Rightarrow> n | None \<Rightarrow> ''UNKNOWN''),
            ci_category = (case name_cp P c of Some _ \<Rightarrow> category_cp P c | None \<Rightarrow> ''UNKNOWN''),
            ci_is_printable = isprintable_cp P c,
            ci_is_space = isspace char,
            ci_is_control = (take 1 (category_cp P c) = ''C''),
            ci_is_invisible = (\<not> isprintable_cp P c \<or> special_chars c \<noteq> None)\<rparr>))"

subsection \<open>_classify_difference\<close>

definition classify_difference :: "pystr \<Rightarrow> pystr \<Rightarrow> py_exception + string" where
  "classify_difference char1 char2 =
     (if char1 = [] then Inr ''insertion''
      else if char2 = [] then Inr ''deletion''
      else if isspace char1 \<and> isspace char2 then Inr ''whitespace_substitution''
      else if isspace char1 \<or> isspace char2 then Inr ''whitespace_difference''
      else (case py_ord char1 of
              Inl e \<Rightarrow> Inl e
            | Inr o1 \<Rightarrow>
                if o1 > 127 then Inr ''unicode_difference''
                else (case py_ord char2 of
                        Inl e \<Rightarrow> Inl e
                      | Inr o2 \<Rightarrow>
                          if o2 > 127 then Inr ''unicode_difference''
                          else Inr ''character_substitution'')))"

subsection \<open>find_string_differences\<close>

record char_difference =
  position :: nat
  char1 :: pystr
  char2 :: pystr
  char1_info :: "info_dict option"
  char2_info :: "info_dict option"
  dtype :: string

text \<open>\<^verbatim>\<open>s[i] if i < len(s) else ''\<close>\<close>

definition char_at :: "pystr \<Rightarrow> nat \<Rightarrow> pystr" where
  "char_at s i = (if i < length s then [s ! i] else [])"

text \<open>\<^verbatim>\<open>self.get_char_info(c) if c else None\<close>\<close>

definition info_if_present :: "platform \<Rightarrow> pystr \<Rightarrow> py_exception + info_dict option" where
  "info_if_present P c =
     (if c \<noteq> [] then (case get_char_info P c of Inl e \<Rightarrow> Inl e | Inr d \<Rightarrow> Inr (Some d))
      else Inr None)"

text \<open>
  The loop over \<^verbatim>\<open>range(max_len)\<close>, with the list \<^verbatim>\<open>differences\<close> as
  accumulator; an exception of a call in the body ends the loop.
\<close>

fun diff_loop ::
  "platform \<Rightarrow> pystr \<Rightarrow> pystr \<Rightarrow> nat list \<Rightarrow> char_difference list \<Rightarrow>
   py_exception + char_difference list" where
  "diff_loop P str1 str2 [] differences = Inr differences"
| "diff_loop P str1 str2 (i # rest) differences =
     (let c1 = char_at str1 i; c2 = char_at str2 i in
      if c1 \<noteq> c2 then
        (case info_if_present P c1 of
           Inl e \<Rightarrow> Inl e
         | Inr i1 \<Rightarrow>
            (case info_if_present P c2 of
               Inl e \<Rightarrow> Inl e
             | Inr i2 \<Rightarrow>
                (case classify_difference c1 c2 of
                   Inl e \<Rightarrow> Inl e
                 | Inr t \<Rightarrow>
                     diff_loop P str1 str2 rest
                       (differences @
                        [\<lparr>position = i, char1 = c1, char2 = c2,
                          char1_info = i1, char2_info = i2, dtype = t\<rparr>]))))
      else diff_loop P str1 str2 rest differences)"

definition find_string_differences ::
  "platform \<Rightarrow> pystr \<Rightarrow> pystr \<Rightarrow> py_exception + char_difference list" where
  "find_string_differences P str1 str2 =
     (let max_len = max (length str1) (length str2) in
      diff_loop P str1 str2 [0..<max_len] [])"

subsection \<open>analyze_difference\<close>

text \<open>
  A Python dictionary keeps its keys in insertion order: an assignment to a key it has
  replaces the value in place, an assignment to a new key appends the entry.
\<close>

fun dict_set :: "('k \<times> 'v) list \<Rightarrow> 'k \<Rightarrow> 'v \<Rightarrow> ('k \<times> 'v) list" where
  "dict_set [] k v = [(k, v)]"
| "dict_set ((k', v') # d) k v = (if k' = k then (k, v) # d else (k', v') # dict_set d k v)"

text \<open>The loop that counts the differences of each kind.\<close>

fun count_types ::
  "char_difference list \<Rightarrow> (string \<times> nat) list \<Rightarrow> py_exception + (string \<times> nat) list" where
  "count_types [] diff_types = Inr diff_types"
| "count_types (d # ds) diff_types =
     (let diff_type = dtype d;
          diff_types = (if map_of diff_types diff_type = None
                        then dict_set diff_types diff_type 0 else diff_types)
      in case map_of diff_types diff_type of
           None \<Rightarrow> Inl KeyError
         | Some n \<Rightarrow> count_types ds (dict_set diff_types diff_type (n + 1)))"

record special_char_entry =
  sc_position :: nat
  sc_char_info :: info_dict

fun special_loop ::
  "platform \<Rightarrow> (nat \<times> codepoint) list \<Rightarrow> special_char_entry list \<Rightarrow>
   py_exception + special_char_entry list" where
  "special_loop P [] special = Inr special"
| "special_loop P ((i, c) # rest) special =
     (if special_chars c \<noteq> None \<or> \<not> isprintable_cp P c then
        (case get_char_info P [c] of
           Inl e \<Rightarrow> Inl e
         | Inr d \<Rightarrow> special_loop P rest (special @ [\<lparr>sc_position = i, sc_char_info = d\<rparr>]))
      else special_loop P rest special)"

definition find_special_chars ::
  "platform \<Rightarrow> pystr \<Rightarrow> py_exception + special_char_entry list" where
  "find_special_chars P text = special_loop P (enumerate 0 text) []"

datatype encoding_result = EncSuccess nat pystr | EncFailure pystr

definition encodings :: "string list" where
  "encodings = [''utf-8'', ''ascii'', ''latin-1'', ''cp1252'', ''gbk'']"

text \<open>
  One entry per encoding, in the order of the list: the byte length and the
  \<^verbatim>\<open>repr\<close> of the bytes, or the message of the UnicodeEncodeError.
\<close>

definition analyze_encoding :: "platform \<Rightarrow> pystr \<Rightarrow> (string \<times> encoding_result) list" where
  "analyze_encoding P text =
     map (\<lambda>encoding.
            (encoding,
             case py_encode P encoding text of
               Inr encoded \<Rightarrow> EncSuccess (length encoded) (bytes_repr P encoded)
             | Inl msg \<Rightarrow> EncFailure msg))
         encodings"

record analysis =
  length_diff :: int
  are_equal :: bool
  str1_length :: nat
  str2_length :: nat
  differences :: "char_difference list"
  diff_count :: nat
  diff_positions :: "nat list"
  diff_types :: "(string \<times> nat) list"
  str1_special_chars :: "special_char_entry list"
  str2_special_chars :: "special_char_entry list"
  str1_encoding_info :: "(string \<times> encoding_result) list"
  str2_encoding_info :: "(string \<times> encoding_result) list"

definition analyze_difference :: "platform \<Rightarrow> pystr \<Rightarrow> pystr \<Rightarrow> py_exception + analysis" where
  "analyze_difference P str1 str2 =
     (case find_string_differences P str1 str2 of
        Inl e \<Rightarrow> Inl e
      | Inr ds \<Rightarrow>
         (case count_types ds [] of
            Inl e \<Rightarrow> Inl e
          | Inr types \<Rightarrow>
             (case find_special_chars P str1 of
                Inl e \<Rightarrow> Inl e
              | Inr special1 \<Rightarrow>
                 (case find_special_chars P str2 of
                    Inl e \<Rightarrow> Inl e
                  | Inr special2 \<Rightarrow>
                      Inr \<lparr>length_diff = int (length str2) - int (length str1),
                           are_equal = (str1 = str2),
                           str1_length = length str1,
                           str2_length = length str2,
                           differences = ds,
                           diff_count = length ds,
                           diff_positions = map position ds,
                           diff_types = types,
                           str1_special_chars = special1,
                           str2_special_chars = special2,
                           str1_encoding_info = analyze_encoding P str1,
                           str2_encoding_info = analyze_encoding P str2\<rparr>))))"

section \<open>comparator.py: CSVComparator\<close>

subsection \<open>Data frames\<close>

text \<open>
  A pandas DataFrame as the program uses it: the column labels in order, and the rows in
  order, each row holding one cell per column. A cell is a string, or the missing value
  NaN that a reindexing to an unknown column creates. Row labels are not modelled: the
  program reads cells by position (\<^verbatim>\<open>iloc\<close>) and renumbers the rows at the end
  (\<^verbatim>\<open>reset_index(drop=True)\<close>).
\<close>

datatype cell = Str pystr | NaN

record dataframe =
  columns :: "pystr list"
  rows :: "cell list list"

definition df_len :: "dataframe \<Rightarrow> nat" where
  "df_len df = length (rows df)"

text \<open>\<^verbatim>\<open>df[col] = v\<close> for a scalar: a new last column, or every cell of the column replaced.\<close>

definition df_set_column :: "dataframe \<Rightarrow> pystr \<Rightarrow> cell \<Rightarrow> dataframe" where
  "df_set_column df col v =
     (if col \<in> set (columns df)
      then df\<lparr>rows := map (\<lambda>r. map (\<lambda>(c, x). if c = col then v else x) (zip (columns df) r)) (rows df)\<rparr>
      else \<lparr>columns = columns df @ [col], rows = map (\<lambda>r. r @ [v]) (rows df)\<rparr>)"

text \<open>The cell of a row under a column label; NaN when the frame has no such column.\<close>

definition row_get :: "pystr list \<Rightarrow> cell list \<Rightarrow> pystr \<Rightarrow> cell" where
  "row_get cs r c = (case map_of (zip cs r) c of Some x \<Rightarrow> x | None \<Rightarrow> NaN)"

text \<open>\<^verbatim>\<open>df.reindex(columns=cs)\<close>: the columns \<open>cs\<close> in this order, NaN where the frame has none.\<close>

definition df_reindex :: "dataframe \<Rightarrow> pystr list \<Rightarrow> dataframe" where
  "df_reindex df cs =
     \<lparr>columns = cs, rows = map (\<lambda>r. map (row_get (columns df) r) cs) (rows df)\<rparr>"

text \<open>\<^verbatim>\<open>pd.DataFrame(v, index=range(a, b), columns=cs)\<close> with \<open>n = b - a\<close> rows.\<close>

definition df_const :: "cell \<Rightarrow> nat \<Rightarrow> pystr list \<Rightarrow> dataframe" where
  "df_const v n cs = \<lparr>columns = cs, rows = replicate n (map (\<lambda>_. v) cs)\<rparr>"

text \<open>
  \<^verbatim>\<open>pd.concat([d1, d2])\<close>: the rows of \<open>d1\<close>, then those of \<open>d2\<close>, over the union of
  the columns in order of first appearance.
\<close>

definition df_concat :: "dataframe \<Rightarrow> dataframe \<Rightarrow> dataframe" where
  "df_concat d1 d2 =
     (let cs = columns d1 @ filter (\<lambda>c. c \<notin> set (columns d1)) (columns d2)
      in \<lparr>columns = cs, rows = rows (df_reindex d1 cs) @ rows (df_reindex d2 cs)\<rparr>)"

text \<open>\<^verbatim>\<open>df.iloc[row, col_idx]\<close>\<close>

definition iloc :: "dataframe \<Rightarrow> nat \<Rightarrow> nat \<Rightarrow> py_exception + cell" where
  "iloc df r c =
     (if r < length (rows df) \<and> c < length (columns df) \<and> c < length (rows df ! r)
      then Inr (rows df ! r ! c) else Inl IndexError)"

text \<open>\<^verbatim>\<open>str(x)\<close> of a cell; NaN prints as \<^verbatim>\<open>nan\<close>.\<close>

fun py_str :: "cell \<Rightarrow> pystr" where
  "py_str (Str s) = s"
| "py_str NaN = [0x6E, 0x61, 0x6E]"

subsection \<open>normalize_dataframes\<close>

text \<open>The loop over the set \<^verbatim>\<open>all_columns\<close>, in the order the platform visits it.\<close>

fun add_missing :: "pystr list \<Rightarrow> dataframe \<times> dataframe \<Rightarrow> dataframe \<times> dataframe" where
  "add_missing [] (df1, df2) = (df1, df2)"
| "add_missing (col # rest) (df1, df2) =
     (let df1 = (if col \<notin> set (columns df1) then df_set_column df1 col (Str []) else df1);
          df2 = (if col \<notin> set (columns df2) then df_set_column df2 col (Str []) else df2)
      in add_missing rest (df1, df2))"

text \<open>
  \<^verbatim>\<open>sorted\<close> of a set of strings is the list of its elements without repetition in
  the lexicographic order of the code points.
\<close>

definition normalize_dataframes ::
  "platform \<Rightarrow> dataframe \<Rightarrow> dataframe \<Rightarrow> dataframe \<times> dataframe" where
  "normalize_dataframes P df1 df2 =
     (let all_columns = columns df1 @ columns df2;
          (df1, df2) = add_missing (set_order P all_columns) (df1, df2);
          df1 = df_reindex df1 (sort (remdups all_columns));
          df2 = df_reindex df2 (sort (remdups all_columns));
          max_rows = max (df_len df1) (df_len df2);
          df1 = (if df_len df1 < max_rows
                 then df_concat df1 (df_const (Str []) (max_rows - df_len df1) (columns df1))
                 else df1);
          df2 = (if df_len df2 < max_rows
                 then df_concat df2 (df_const (Str []) (max_rows - df_len df2) (columns df2))
                 else df2)
      in (df1, df2))"

subsection \<open>compare_cells\<close>

record comparator =
  ignore_case :: bool
  ignore_whitespace :: bool

text \<open>\<^verbatim>\<open>str.strip()\<close> removes the leading and the trailing whitespace.\<close>

definition py_strip :: "pystr \<Rightarrow> pystr" where
  "py_strip s = rev (dropWhile isspace_cp (rev (dropWhile isspace_cp s)))"

text \<open>The second component is the analysis dictionary; \<open>None\<close> is \<^verbatim>\<open>{}\<close>.\<close>

definition compare_cells ::
  "comparator \<Rightarrow> platform \<Rightarrow> pystr \<Rightarrow> pystr \<Rightarrow> py_exception + (bool \<times> analysis option)" where
  "compare_cells self P val1 val2 =
     (let val1 = (if ignore_whitespace self then py_strip val1 else val1);
          val2 = (if ignore_whitespace self then py_strip val2 else val2);
          val1 = (if ignore_case self then py_lower P val1 else val1);
          val2 = (if ignore_case self then py_lower P val2 else val2)
      in if val1 = val2 then Inr (True, None)
         else case analyze_difference P val1 val2 of
                Inl e \<Rightarrow> Inl e
              | Inr a \<Rightarrow> Inr (False, Some a))"

subsection \<open>compare_files\<close>

record cell_difference =
  row :: nat
  col :: nat
  col_name :: pystr
  original :: pystr
  target :: pystr
  original_repr :: pystr
  target_repr :: pystr
  char_diff_positions :: "nat list"
  unicode_analysis :: "analysis option"

record file_entry =
  fe_path :: pystr
  fe_size :: nat
  fe_rows :: nat
  fe_columns :: nat
  fe_encoding :: string

record summary_info =
  accuracy :: rat
  s_total_cells :: int
  s_identical_cells :: int
  s_different_cells :: int
  difference_rate :: rat

text \<open>
  ComparisonResult. The field \<^verbatim>\<open>differences\<close> is \<open>cell_differences\<close> here, and
  \<^verbatim>\<open>file_info\<close> is the pair of its two entries.
\<close>

record comparison_result =
  similarity :: rat
  total_cells :: int
  different_cells :: int
  identical_cells :: int
  cell_differences :: "cell_difference list"
  file_info :: "file_entry \<times> file_entry"
  summary :: summary_info

text \<open>
  What the program reads from the file system is a parameter: the data frame
  \<^verbatim>\<open>load_csv\<close> returns for a path (or the exception it raises), the size of the
  file and the encoding \<^verbatim>\<open>detect_encoding\<close> reports.
\<close>

record filesystem =
  load_csv :: "pystr \<Rightarrow> py_exception + dataframe"
  stat_size :: "pystr \<Rightarrow> py_exception + nat"
  detect_encoding :: "pystr \<Rightarrow> py_exception + string"

text \<open>
  The inner loop over \<^verbatim>\<open>enumerate(df1.columns)\<close> and the outer loop over the rows;
  the state is the list \<^verbatim>\<open>differences\<close> and the counter \<^verbatim>\<open>different_cells\<close>.
  Progress messages are not modelled.
\<close>

fun col_loop ::
  "comparator \<Rightarrow> platform \<Rightarrow> dataframe \<Rightarrow> dataframe \<Rightarrow> nat \<Rightarrow> (nat \<times> pystr) list \<Rightarrow>
   cell_difference list \<times> int \<Rightarrow> py_exception + (cell_difference list \<times> int)" where
  "col_loop self P df1 df2 r [] st = Inr st"
| "col_loop self P df1 df2 r ((col_idx, name) # rest) (found, different) =
     (case iloc df1 r col_idx of
        Inl e \<Rightarrow> Inl e
      | Inr x1 \<Rightarrow>
         (case iloc df2 r col_idx of
            Inl e \<Rightarrow> Inl e
          | Inr x2 \<Rightarrow>
             (let val1 = py_str x1; val2 = py_str x2 in
              case compare_cells self P val1 val2 of
                Inl e \<Rightarrow> Inl e
              | Inr (is_same, an) \<Rightarrow>
                  if \<not> is_same then
                    col_loop self P df1 df2 r rest
                      (found @
                       [\<lparr>row = r, col = col_idx, col_name = name,
                         original = val1, target = val2,
                         original_repr = py_repr P val1, target_repr = py_repr P val2,
                         char_diff_positions = (case an of None \<Rightarrow> [] | Some a \<Rightarrow> diff_positions a),
                         unicode_analysis = an\<rparr>],
                       different + 1)
                  else col_loop self P df1 df2 r rest (found, different))))"

fun row_loop ::
  "comparator \<Rightarrow> platform \<Rightarrow> dataframe \<Rightarrow> dataframe \<Rightarrow> nat list \<Rightarrow>
   cell_difference list \<times> int \<Rightarrow> py_exception + (cell_difference list \<times> int)" where
  "row_loop self P df1 df2 [] st = Inr st"
| "row_loop self P df1 df2 (r # rest) st =
     (case col_loop self P df1 df2 r (enumerate 0 (columns df1)) st of
        Inl e \<Rightarrow> Inl e
      | Inr st' \<Rightarrow> row_loop self P df1 df2 rest st')"

text \<open>
  A Python float is a binary64 number; the model holds the rational number it denotes (the
  sign of a zero is not kept). Rounding a rational to binary64: the quantum of a number
  in the binade \<open>2 ^ e\<close> is \<open>2 ^ (e - 52)\<close>, that of a subnormal number \<open>2 ^ - 1074\<close>, and the
  number is rounded to the nearest multiple of its quantum, a tie to the even multiple.
\<close>

definition round_half_even :: "rat \<Rightarrow> int" where
  "round_half_even x =
     (let f = \<lfloor>x\<rfloor>; d = x - of_int f
      in if d < 1 / 2 then f else if 1 / 2 < d then f + 1 else if even f then f else f + 1)"

text \<open>The binade of a positive rational: the integer \<open>e\<close> with \<open>2 ^ e \<le> q < 2 ^ (e + 1)\<close>.\<close>

definition binade :: "rat \<Rightarrow> int" where
  "binade q =
     (let (a, b) = quotient_of q; g = bitlen a - bitlen b
      in if 2 powi g \<le> q then g else g - 1)"

definition nearest_double :: "rat \<Rightarrow> rat" where
  "nearest_double q =
     (if q = 0 then 0
      else let e = max (binade \<bar>q\<bar>) (- 1022); u = 2 powi (e - 52)
           in sgn q * of_int (round_half_even (\<bar>q\<bar> / u)) * u)"

text \<open>
  \<^verbatim>\<open>a / b\<close> of two integers: ZeroDivisionError for a zero divisor, else the float
  nearest to the quotient, or OverflowError when that is beyond the largest float.
\<close>

definition py_truediv :: "int \<Rightarrow> int \<Rightarrow> py_exception + rat" where
  "py_truediv a b =
     (if b = 0 then Inl ZeroDivisionError
      else let x = nearest_double (of_int a / of_int b)
           in if 2 ^ 1024 \<le> \<bar>x\<bar> then Inl OverflowError else Inr x)"

definition compare_files ::
  "comparator \<Rightarrow> platform \<Rightarrow> filesystem \<Rightarrow> pystr \<Rightarrow> pystr \<Rightarrow>
   py_exception + comparison_result" where
  "compare_files self P fs base_file target_file =
     (case load_csv fs base_file of
        Inl e \<Rightarrow> Inl e
      | Inr df1 \<Rightarrow>
     (case load_csv fs target_file of
        Inl e \<Rightarrow> Inl e
      | Inr df2 \<Rightarrow>
     (let (df1, df2) = normalize_dataframes P df1 df2;
          total = int (df_len df1) * int (length (columns df1))
      in
      case row_loop self P df1 df2 [0..<df_len df1] ([], 0) of
        Inl e \<Rightarrow> Inl e
      | Inr (found, different) \<Rightarrow>
     (let identical = total - different in
      case (if total > 0 then py_truediv identical total else Inr 0) of
        Inl e \<Rightarrow> Inl e
      | Inr sim \<Rightarrow>
     (case stat_size fs base_file of
        Inl e \<Rightarrow> Inl e
      | Inr size1 \<Rightarrow>
     (case detect_encoding fs base_file of
        Inl e \<Rightarrow> Inl e
      | Inr enc1 \<Rightarrow>
     (case stat_size fs target_file of
        Inl e \<Rightarrow> Inl e
      | Inr size2 \<Rightarrow>
     (case detect_encoding fs target_file of
        Inl e \<Rightarrow> Inl e
      | Inr enc2 \<Rightarrow>
     (case (if total > 0 then py_truediv different total else Inr 0) of
        Inl e \<Rightarrow> Inl e
      | Inr rate \<Rightarrow>
          Inr \<lparr>similarity = sim,
               total_cells = total,
               different_cells = different,
               identical_cells = identical,
               cell_differences = found,
               file_info =
                 (\<lparr>fe_path = base_file, fe_size = size1, fe_rows = df_len df1,
                   fe_columns = length (columns df1), fe_encoding = enc1\<rparr>,
                  \<lparr>fe_path = target_file, fe_size = size2, fe_rows = df_len df2,
                   fe_columns = length (columns df2), fe_encoding = enc2\<rparr>),
               summary =
                 \<lparr>accuracy = sim,
                  s_total_cells = total,
                  s_identical_cells = identical,
                  s_different_cells = different,
                  difference_rate = rate\<rparr>\<rparr>)))))))))"

subsection \<open>batch_compare\<close>

text \<open>
  The loop over the targets with the dictionary \<^verbatim>\<open>results\<close> as state: an exception of
  \<^verbatim>\<open>compare_files\<close> is caught and the target is mapped to \<open>None\<close>.
\<close>

fun batch_loop ::
  "comparator \<Rightarrow> platform \<Rightarrow> filesystem \<Rightarrow> pystr \<Rightarrow> pystr list \<Rightarrow>
   (pystr \<times> comparison_result option) list \<Rightarrow> (pystr \<times> comparison_result option) list" where
  "batch_loop self P fs base_file [] results = results"
| "batch_loop self P fs base_file (target_file # rest) results =
     (case compare_files self P fs base_file target_file of
        Inr result \<Rightarrow> batch_loop self P fs base_file rest (dict_set results target_file (Some result))
      | Inl e \<Rightarrow> batch_loop self P fs base_file rest (dict_set results target_file None))"

definition batch_compare ::
  "comparator \<Rightarrow> platform \<Rightarrow> filesystem \<Rightarrow> pystr \<Rightarrow> pystr list \<Rightarrow>
   (pystr \<times> comparison_result option) list" where
  "batch_compare self P fs base_file target_files = batch_loop self P fs base_file target_files []"

section \<open>Statements\<close>

text \<open>
  A possibly absent character as the string the program sees: the empty string, or the
  string of one code point.
\<close>

definition opt_str :: "codepoint option \<Rightarrow> pystr" where
  "opt_str a = (case a of None \<Rightarrow> [] | Some c \<Rightarrow> [c])"

text \<open>
  The priority of the kinds as the specification words it, to be compared with
  \<open>classify_difference\<close>.
\<close>

definition spec_kind :: "codepoint option \<Rightarrow> codepoint option \<Rightarrow> string" where
  "spec_kind a b =
     (case a of
        None \<Rightarrow> ''insertion''
      | Some x \<Rightarrow>
         (case b of
            None \<Rightarrow> ''deletion''
          | Some y \<Rightarrow>
              if isspace_cp x \<and> isspace_cp y then ''whitespace_substitution''
              else if isspace_cp x \<noteq> isspace_cp y then ''whitespace_difference''
              else if x > 127 \<or> y > 127 then ''unicode_difference''
              else ''character_substitution''))"

text \<open>The character of a string at an index, absent when the index is out of range.\<close>

definition nth_opt :: "'a list \<Rightarrow> nat \<Rightarrow> 'a option" where
  "nth_opt s i = (if i < length s then Some (s ! i) else None)"

text \<open>The two strings differ at an index; the kind of the difference there.\<close>

definition mismatch :: "pystr \<Rightarrow> pystr \<Rightarrow> nat \<Rightarrow> bool" where
  "mismatch a b i \<longleftrightarrow> char_at a i \<noteq> char_at b i"

definition kind_at :: "pystr \<Rightarrow> pystr \<Rightarrow> nat \<Rightarrow> string" where
  "kind_at a b i = spec_kind (nth_opt a i) (nth_opt b i)"

text \<open>
  The code points the specification lists for the table: U+00A0, U+2000 to U+200D,
  U+2028, U+2029, U+202F, U+205F, U+3000, tab, newline, carriage return, form feed,
  vertical tab, U+2010 to U+2015 and U+2018 to U+201F.
\<close>

definition spec_curated_code_points :: "codepoint list" where
  "spec_curated_code_points =
     [0x00A0,
      0x2000, 0x2001, 0x2002, 0x2003, 0x2004, 0x2005, 0x2006, 0x2007, 0x2008, 0x2009,
      0x200A, 0x200B, 0x200C, 0x200D,
      0x2028, 0x2029, 0x202F, 0x205F, 0x3000,
      0x09, 0x0A, 0x0D, 0x0C, 0x0B,
      0x2010, 0x2011, 0x2012, 0x2013, 0x2014, 0x2015,
      0x2018, 0x2019, 0x201A, 0x201B, 0x201C, 0x201D, 0x201E, 0x201F]"

text \<open>A well-formed frame: distinct column labels, and one cell per column in every row.\<close>

definition wf_frame :: "dataframe \<Rightarrow> bool" where
  "wf_frame df \<longleftrightarrow> distinct (columns df) \<and> (\<forall>r\<in>set (rows df). length r = length (columns df))"

text \<open>What the loop over the columns does to one of the two frames.\<close>

definition add_cols :: "pystr list \<Rightarrow> dataframe \<Rightarrow> dataframe" where
  "add_cols order df =
     fold (\<lambda>col d. if col \<notin> set (columns d) then df_set_column d col (Str []) else d) order df"

text \<open>
  The rows of an aligned frame: the rows of the input under the columns \<open>cs\<close>, the empty
  string where the input has no such column, then rows of empty strings up to \<open>n\<close> rows.
\<close>

definition aligned_rows :: "pystr list \<Rightarrow> dataframe \<Rightarrow> nat \<Rightarrow> cell list list" where
  "aligned_rows cs df n =
     map (\<lambda>r. map (\<lambda>c. if c \<in> set (columns df) then row_get (columns df) r c else Str []) cs)
         (rows df)
     @ replicate (n - length (rows df)) (map (\<lambda>_. Str []) cs)"

text \<open>The value of a cell as \<^verbatim>\<open>compare_cells\<close> compares it: trimmed and lowered as configured.\<close>

definition normalized :: "comparator \<Rightarrow> platform \<Rightarrow> pystr \<Rightarrow> pystr" where
  "normalized self P v =
     (let v = (if ignore_whitespace self then py_strip v else v)
      in if ignore_case self then py_lower P v else v)"

text \<open>The cells at row \<open>r\<close> and column position \<open>j\<close> of two frames differ after normalization.\<close>

definition cell_differs ::
  "comparator \<Rightarrow> platform \<Rightarrow> dataframe \<Rightarrow> dataframe \<Rightarrow> nat \<Rightarrow> nat \<Rightarrow> bool" where
  "cell_differs self P d1 d2 r j \<longleftrightarrow>
     normalized self P (py_str (rows d1 ! r ! j)) \<noteq> normalized self P (py_str (rows d2 ! r ! j))"

text \<open>
  A difference record as the loop builds it for the cell at its row and column: the label of
  the column, the values of the two cells as they stand in the frames, and the analysis of
  the normalized values.
\<close>

definition cell_record ::
  "comparator \<Rightarrow> platform \<Rightarrow> dataframe \<Rightarrow> dataframe \<Rightarrow> cell_difference \<Rightarrow> bool" where
  "cell_record self P d1 d2 d \<longleftrightarrow>
     col_name d = columns d1 ! col d
     \<and> original d = py_str (rows d1 ! row d ! col d)
     \<and> target d = py_str (rows d2 ! row d ! col d)
     \<and> original_repr d = py_repr P (original d)
     \<and> target_repr d = py_repr P (target d)
     \<and> (\<exists>a. analyze_difference P (normalized self P (original d)) (normalized self P (target d))
              = Inr a
            \<and> unicode_analysis d = Some a \<and> char_diff_positions d = diff_positions a)"

text \<open>What the batch stores for a target: the result, or \<open>None\<close> when the comparison raised.\<close>

definition outcome ::
  "comparator \<Rightarrow> platform \<Rightarrow> filesystem \<Rightarrow> pystr \<Rightarrow> pystr \<Rightarrow> comparison_result option" where
  "outcome self P fs base_file t =
     (case compare_files self P fs base_file t of Inl e \<Rightarrow> None | Inr r \<Rightarrow> Some r)"

subsection \<open>Characters and their kinds\<close>

lemma isspace_single [simp]: "isspace [c] = isspace_cp c"
  by (simp add: isspace_def)

lemma classify_difference_single:
  "classify_difference (opt_str a) (opt_str b) = Inr (spec_kind a b)"
  by (auto simp: classify_difference_def opt_str_def spec_kind_def split: option.splits)

lemma char_at_opt_str: "char_at s i = opt_str (nth_opt s i)"
  by (simp add: char_at_def opt_str_def nth_opt_def)

lemma opt_str_inject [simp]: "opt_str a = opt_str b \<longleftrightarrow> a = b"
  by (auto simp: opt_str_def split: option.splits)

lemma mismatch_nth_opt: "mismatch a b i \<longleftrightarrow> nth_opt a i \<noteq> nth_opt b i"
  by (simp add: mismatch_def char_at_opt_str)

lemma get_char_info_single_ex: "\<exists>ci. get_char_info P [c] = Inr (Info ci)"
  by (simp add: get_char_info_def)

lemma info_if_present_total: "\<exists>x. info_if_present P (opt_str a) = Inr x"
proof (cases a)
  case None
  then show ?thesis by (simp add: info_if_present_def opt_str_def)
next
  case (Some c)
  obtain ci where "get_char_info P [c] = Inr (Info ci)"
    using get_char_info_single_ex by blast
  with Some show ?thesis by (simp add: info_if_present_def opt_str_def)
qed

text \<open>
  C1: the kind of a difference between two possibly absent characters follows the fixed
  priority insertion, deletion, whitespace_substitution, whitespace_difference,
  unicode_difference, character_substitution; two whitespace characters always give
  whitespace_substitution, as U+00A0 against U+0020 does.
\<close>

theorem classify_difference_priority:
  "classify_difference (opt_str a) (opt_str b) =
     Inr (case a of
            None \<Rightarrow> ''insertion''
          | Some x \<Rightarrow>
             (case b of
                None \<Rightarrow> ''deletion''
              | Some y \<Rightarrow>
                  if isspace_cp x \<and> isspace_cp y then ''whitespace_substitution''
                  else if isspace_cp x \<noteq> isspace_cp y then ''whitespace_difference''
                  else if 127 < x \<or> 127 < y then ''unicode_difference''
                  else ''character_substitution''))
   \<and> (isspace_cp u \<and> isspace_cp v \<longrightarrow>
        classify_difference [u] [v] = Inr ''whitespace_substitution'')
   \<and> classify_difference [0xA0] [0x20] = Inr ''whitespace_substitution''"
proof (intro conjI impI)
  show "classify_difference (opt_str a) (opt_str b) =
     Inr (case a of
            None \<Rightarrow> ''insertion''
          | Some x \<Rightarrow>
             (case b of
                None \<Rightarrow> ''deletion''
              | Some y \<Rightarrow>
                  if isspace_cp x \<and> isspace_cp y then ''whitespace_substitution''
                  else if isspace_cp x \<noteq> isspace_cp y then ''whitespace_difference''
                  else if 127 < x \<or> 127 < y then ''unicode_difference''
                  else ''character_substitution''))"
    by (simp add: classify_difference_single spec_kind_def)
next
  assume "isspace_cp u \<and> isspace_cp v"
  then show "classify_difference [u] [v] = Inr ''whitespace_substitution''"
    by (simp add: classify_difference_def)
next
  show "classify_difference [0xA0] [0x20] = Inr ''whitespace_substitution''"
    by (simp add: classify_difference_def isspace_cp_def)
qed

theorem classify_difference_priority_witness:
  "isspace_cp 0xA0 \<and> isspace_cp 0x20 \<and> (127::nat) < 0xA0
   \<and> classify_difference [0xA0] [0x20] = Inr ''whitespace_substitution''
   \<and> classify_difference (opt_str (Some 0xE9)) (opt_str (Some 0x65)) = Inr ''unicode_difference''
   \<and> classify_difference (opt_str None) (opt_str (Some 0x64)) = Inr ''insertion''"
  using classify_difference_priority [of "Some 0xE9" "Some 0x65" "0xA0" "0x20"]
    classify_difference_priority [of None "Some 0x64" "0xA0" "0x20"]
  by (simp add: isspace_cp_def)

subsection \<open>The table\<close>

text \<open>
  C7, as stated: the table has an entry for every code point the specification lists.
  It has none for U+2000.
\<close>

theorem special_chars_listed_counterexample:
  "0x2000 \<in> set spec_curated_code_points \<and> special_chars 0x2000 = None"
  by (simp add: spec_curated_code_points_def special_chars_def special_chars_table_def)

text \<open>
  C7, amended: of the code points the specification lists, the table has an entry for
  every one except U+2000 to U+2008, which it does not hold.
\<close>

theorem special_chars_listed:
  "\<forall>c\<in>set spec_curated_code_points.
     (special_chars c \<noteq> None) = (\<not> (0x2000 \<le> c \<and> c \<le> 0x2008))"
  by (simp add: spec_curated_code_points_def special_chars_def special_chars_table_def)

theorem special_chars_listed_witness:
  "0x2013 \<in> set spec_curated_code_points \<and> special_chars 0x2013 \<noteq> None
   \<and> 0x2004 \<in> set spec_curated_code_points \<and> special_chars 0x2004 = None"
proof -
  have a: "0x2013 \<in> set spec_curated_code_points" and b: "0x2004 \<in> set spec_curated_code_points"
    by (simp_all add: spec_curated_code_points_def)
  from special_chars_listed a have "(special_chars 0x2013 \<noteq> None) = (\<not> (0x2000 \<le> (0x2013::nat) \<and> (0x2013::nat) \<le> 0x2008))"
    by blast
  moreover from special_chars_listed b have "(special_chars 0x2004 \<noteq> None) = (\<not> (0x2000 \<le> (0x2004::nat) \<and> (0x2004::nat) \<le> 0x2008))"
    by blast
  ultimately show ?thesis using a b by simp
qed

subsection \<open>get_char_info\<close>

text \<open>
  C8: for a single character the field is_invisible is true exactly when the character
  is not printable or is a key of the table; the en dash U+2013 is flagged invisible
  whatever the platform says of its printability.
\<close>

theorem get_char_info_is_invisible:
  "(\<exists>ci. get_char_info P [c] = Inr (Info ci)
        \<and> ci_is_printable ci = isprintable_cp P c
        \<and> ci_is_invisible ci = (\<not> isprintable_cp P c \<or> c \<in> dom special_chars))
   \<and> (\<exists>ci. get_char_info P [0x2013] = Inr (Info ci) \<and> ci_is_invisible ci)"
  by (auto simp: get_char_info_def special_chars_def special_chars_table_def)

theorem get_char_info_is_invisible_witness:
  "\<forall>P. \<exists>ci. get_char_info (P\<lparr>isprintable_cp := (\<lambda>_. True)\<rparr>) [0x2013] = Inr (Info ci)
         \<and> ci_is_printable ci \<and> ci_is_invisible ci"
proof
  fix P :: platform
  show "\<exists>ci. get_char_info (P\<lparr>isprintable_cp := (\<lambda>_. True)\<rparr>) [0x2013] = Inr (Info ci)
         \<and> ci_is_printable ci \<and> ci_is_invisible ci"
    using get_char_info_is_invisible [of "P\<lparr>isprintable_cp := (\<lambda>_. True)\<rparr>" "0x2013"]
    by auto
qed

subsection \<open>find_string_differences\<close>

lemma diff_loop_spec:
  "\<exists>ds. diff_loop P a b idx acc = Inr (acc @ ds)
      \<and> map position ds = filter (mismatch a b) idx
      \<and> map char1 ds = map (char_at a) (filter (mismatch a b) idx)
      \<and> map char2 ds = map (char_at b) (filter (mismatch a b) idx)
      \<and> map dtype ds = map (kind_at a b) (filter (mismatch a b) idx)"
proof (induction idx arbitrary: acc)
  case Nil
  show ?case by simp
next
  case (Cons i idx)
  show ?case
  proof (cases "mismatch a b i")
    case False
    then have "diff_loop P a b (i # idx) acc = diff_loop P a b idx acc"
      by (simp add: mismatch_def)
    with Cons.IH [of acc] False show ?thesis by simp
  next
    case True
    obtain i1 where i1: "info_if_present P (char_at a i) = Inr i1"
      using info_if_present_total [of P "nth_opt a i"] by (auto simp: char_at_opt_str)
    obtain i2 where i2: "info_if_present P (char_at b i) = Inr i2"
      using info_if_present_total [of P "nth_opt b i"] by (auto simp: char_at_opt_str)
    have t: "classify_difference (char_at a i) (char_at b i) = Inr (kind_at a b i)"
      by (simp add: char_at_opt_str classify_difference_single kind_at_def)
    define d where "d = \<lparr>position = i, char1 = char_at a i, char2 = char_at b i,
      char1_info = i1, char2_info = i2, dtype = kind_at a b i\<rparr>"
    have step: "diff_loop P a b (i # idx) acc = diff_loop P a b idx (acc @ [d])"
      using True i1 i2 t by (simp add: mismatch_def d_def)
    obtain ds where ds: "diff_loop P a b idx (acc @ [d]) = Inr ((acc @ [d]) @ ds)"
      "map position ds = filter (mismatch a b) idx"
      "map char1 ds = map (char_at a) (filter (mismatch a b) idx)"
      "map char2 ds = map (char_at b) (filter (mismatch a b) idx)"
      "map dtype ds = map (kind_at a b) (filter (mismatch a b) idx)"
      using Cons.IH [of "acc @ [d]"] by blast
    have "diff_loop P a b (i # idx) acc = Inr (acc @ (d # ds))"
      using step ds(1) by simp
    moreover have "map position (d # ds) = filter (mismatch a b) (i # idx)"
      using True ds(2) by (simp add: d_def)
    moreover have "map char1 (d # ds) = map (char_at a) (filter (mismatch a b) (i # idx))"
      using True ds(3) by (simp add: d_def)
    moreover have "map char2 (d # ds) = map (char_at b) (filter (mismatch a b) (i # idx))"
      using True ds(4) by (simp add: d_def)
    moreover have "map dtype (d # ds) = map (kind_at a b) (filter (mismatch a b) (i # idx))"
      using True ds(5) by (simp add: d_def)
    ultimately show ?thesis by blast
  qed
qed

lemma find_string_differences_spec:
  "\<exists>ds. find_string_differences P a b = Inr ds
      \<and> map position ds = filter (mismatch a b) [0..<max (length a) (length b)]
      \<and> map char1 ds = map (char_at a) (map position ds)
      \<and> map char2 ds = map (char_at b) (map position ds)
      \<and> map dtype ds = map (kind_at a b) (map position ds)"
proof -
  obtain ds where ds: "diff_loop P a b [0..<max (length a) (length b)] [] = Inr ([] @ ds)"
    "map position ds = filter (mismatch a b) [0..<max (length a) (length b)]"
    "map char1 ds = map (char_at a) (filter (mismatch a b) [0..<max (length a) (length b)])"
    "map char2 ds = map (char_at b) (filter (mismatch a b) [0..<max (length a) (length b)])"
    "map dtype ds = map (kind_at a b) (filter (mismatch a b) [0..<max (length a) (length b)])"
    using diff_loop_spec [of P a b "[0..<max (length a) (length b)]" "[]"] by blast
  have "find_string_differences P a b = Inr ds"
    using ds(1) by (simp add: find_string_differences_def)
  then show ?thesis
    using ds(2-5) by (intro exI [of _ ds]) simp
qed

lemma map_eq_map_map: "map f ds = map g (map p ds) \<longleftrightarrow> (\<forall>d\<in>set ds. f d = g (p d))"
  by (simp add: map_eq_conv)

text \<open>
  C2: the differences of two strings are found at fixed positions: one for each index
  below the greater length at which the characters (absent beyond the end of a string)
  are unequal, in increasing order of the index, each with the two characters of its
  index. For "abc" and "abcd" the one difference is an insertion at position 3.
\<close>

theorem find_string_differences_positional:
  "(\<exists>ds. find_string_differences P a b = Inr ds
       \<and> map position ds =
           filter (\<lambda>i. char_at a i \<noteq> char_at b i) [0..<max (length a) (length b)]
       \<and> map char1 ds = map (char_at a) (map position ds)
       \<and> map char2 ds = map (char_at b) (map position ds))
   \<and> (\<exists>d. find_string_differences P [0x61, 0x62, 0x63] [0x61, 0x62, 0x63, 0x64] = Inr [d]
        \<and> position d = 3 \<and> dtype d = ''insertion'' \<and> char1 d = [] \<and> char2 d = [0x64])"
proof
  have "mismatch a b = (\<lambda>i. char_at a i \<noteq> char_at b i)"
    by (simp add: mismatch_def fun_eq_iff)
  then show "\<exists>ds. find_string_differences P a b = Inr ds
       \<and> map position ds =
           filter (\<lambda>i. char_at a i \<noteq> char_at b i) [0..<max (length a) (length b)]
       \<and> map char1 ds = map (char_at a) (map position ds)
       \<and> map char2 ds = map (char_at b) (map position ds)"
    using find_string_differences_spec [of P a b] by auto
next
  let ?a = "[0x61, 0x62, 0x63] :: pystr" and ?b = "[0x61, 0x62, 0x63, 0x64] :: pystr"
  obtain ds where ds: "find_string_differences P ?a ?b = Inr ds"
    "map position ds = filter (mismatch ?a ?b) [0..<max (length ?a) (length ?b)]"
    "map char1 ds = map (char_at ?a) (map position ds)"
    "map char2 ds = map (char_at ?b) (map position ds)"
    "map dtype ds = map (kind_at ?a ?b) (map position ds)"
    using find_string_differences_spec [of P ?a ?b] by blast
  have upt: "[0..<4] = [0, 1, 2, Suc 2]"
    by (simp add: upt_rec)
  have pos: "map position ds = [3]"
    using ds(2) by (simp add: upt mismatch_def char_at_def)
  then obtain d where d: "ds = [d]"
    by (cases ds) auto
  with pos have p3: "position d = 3" by simp
  have "dtype d = ''insertion''"
    using ds(5) d p3 by (simp add: kind_at_def nth_opt_def spec_kind_def)
  moreover have "char1 d = []" "char2 d = [0x64]"
    using ds(3,4) d p3 by (simp_all add: char_at_def)
  ultimately show "\<exists>d. find_string_differences P ?a ?b = Inr [d]
        \<and> position d = 3 \<and> dtype d = ''insertion'' \<and> char1 d = [] \<and> char2 d = [0x64]"
    using ds(1) d p3 by auto
qed

theorem find_string_differences_positional_witness:
  "\<forall>P. \<exists>ds. find_string_differences P [0x66, 0x6F, 0x6F] [0x66, 0x61, 0x6F, 0x21] = Inr ds
         \<and> map position ds = [1, 3]
         \<and> map char1 ds = [[0x6F], []]
         \<and> map char2 ds = [[0x61], [0x21]]"
proof
  fix P :: platform
  have upt: "[0..<4] = [0, 1, 2, Suc 2]"
    by (simp add: upt_rec)
  show "\<exists>ds. find_string_differences P [0x66, 0x6F, 0x6F] [0x66, 0x61, 0x6F, 0x21] = Inr ds
         \<and> map position ds = [1, 3]
         \<and> map char1 ds = [[0x6F], []]
         \<and> map char2 ds = [[0x61], [0x21]]"
    using find_string_differences_positional [of P "[0x66, 0x6F, 0x6F]" "[0x66, 0x61, 0x6F, 0x21]"]
    by (auto simp: upt char_at_def)
qed

subsection \<open>analyze_difference\<close>

lemma map_of_dict_set: "map_of (dict_set d k v) = (map_of d)(k \<mapsto> v)"
  by (induction d k v rule: dict_set.induct) (auto simp: fun_eq_iff)

lemma count_types_total: "\<exists>r. count_types ds acc = Inr r"
proof (induction ds arbitrary: acc)
  case Nil
  show ?case by simp
next
  case (Cons d ds)
  define acc' where
    "acc' = (if map_of acc (dtype d) = None then dict_set acc (dtype d) 0 else acc)"
  have "map_of acc' (dtype d) \<noteq> None"
    by (simp add: acc'_def map_of_dict_set)
  then obtain n where n: "map_of acc' (dtype d) = Some n"
    by blast
  have "count_types (d # ds) acc = count_types ds (dict_set acc' (dtype d) (n + 1))"
    using n by (simp add: acc'_def Let_def)
  with Cons.IH [of "dict_set acc' (dtype d) (n + 1)"] show ?case
    by simp
qed

lemma special_loop_total: "\<exists>r. special_loop P xs acc = Inr r"
proof (induction xs arbitrary: acc)
  case Nil
  show ?case by simp
next
  case (Cons x xs)
  obtain i c where x: "x = (i, c)"
    by (cases x)
  obtain ci where ci: "get_char_info P [c] = Inr (Info ci)"
    using get_char_info_single_ex by blast
  show ?case
  proof (cases "special_chars c \<noteq> None \<or> \<not> isprintable_cp P c")
    case True
    then have "special_loop P (x # xs) acc =
        special_loop P xs (acc @ [\<lparr>sc_position = i, sc_char_info = Info ci\<rparr>])"
      using x ci by simp
    with Cons.IH show ?thesis by simp
  next
    case False
    then have "special_loop P (x # xs) acc = special_loop P xs acc"
      using x by simp
    with Cons.IH show ?thesis by simp
  qed
qed

lemma analyze_difference_spec:
  assumes "find_string_differences P a b = Inr ds"
  shows "\<exists>r. analyze_difference P a b = Inr r \<and> differences r = ds
           \<and> are_equal r = (a = b) \<and> diff_positions r = map position ds"
proof -
  obtain types where t: "count_types ds [] = Inr types"
    using count_types_total by blast
  obtain s1 where s1: "find_special_chars P a = Inr s1"
    using special_loop_total [of P "enumerate 0 a" "[]"] by (auto simp: find_special_chars_def)
  obtain s2 where s2: "find_special_chars P b = Inr s2"
    using special_loop_total [of P "enumerate 0 b" "[]"] by (auto simp: find_special_chars_def)
  show ?thesis
    using assms t s1 s2 by (simp add: analyze_difference_def)
qed

lemma analyze_difference_total: "\<exists>r. analyze_difference P a b = Inr r"
proof -
  obtain ds where "find_string_differences P a b = Inr ds"
    using find_string_differences_spec by blast
  from analyze_difference_spec [OF this] show ?thesis by blast
qed

text \<open>
  C9: the analysis of a string against itself returns, with an empty list of differences
  and are_equal true.
\<close>

theorem analyze_difference_same:
  "\<exists>r. analyze_difference P s s = Inr r \<and> differences r = [] \<and> are_equal r"
proof -
  obtain ds where ds: "find_string_differences P s s = Inr ds"
    "map position ds = filter (mismatch s s) [0..<max (length s) (length s)]"
    using find_string_differences_spec by blast
  have "filter (mismatch s s) [0..<max (length s) (length s)] = []"
    by (simp add: mismatch_def)
  with ds(2) have "ds = []" by simp
  with analyze_difference_spec [OF ds(1)] show ?thesis by auto
qed

theorem analyze_difference_same_witness:
  "\<forall>P. \<exists>r. analyze_difference P [0x63, 0x61, 0x66, 0xE9] [0x63, 0x61, 0x66, 0xE9] = Inr r
         \<and> differences r = [] \<and> are_equal r"
proof
  fix P :: platform
  show "\<exists>r. analyze_difference P [0x63, 0x61, 0x66, 0xE9] [0x63, 0x61, 0x66, 0xE9] = Inr r
         \<and> differences r = [] \<and> are_equal r"
    using analyze_difference_same [of P "[0x63, 0x61, 0x66, 0xE9]"] .
qed

subsection \<open>Insertions and deletions\<close>

lemma length_filter_le_upt: "length (filter (\<lambda>i. n \<le> i) [0..<m]) = m - n"
  by (induction m) auto

lemma kind_at_insertion:
  "i < max (length a) (length b) \<Longrightarrow>
   mismatch a b i \<and> kind_at a b i = ''insertion'' \<longleftrightarrow> length a \<le> i"
  by (auto simp: mismatch_nth_opt kind_at_def nth_opt_def spec_kind_def)

lemma kind_at_deletion:
  "i < max (length a) (length b) \<Longrightarrow>
   mismatch a b i \<and> kind_at a b i = ''deletion'' \<longleftrightarrow> length b \<le> i"
  by (auto simp: mismatch_nth_opt kind_at_def nth_opt_def spec_kind_def)

lemma count_kind:
  assumes "map position ds = filter (mismatch a b) [0..<m]"
    and "map dtype ds = map (kind_at a b) (map position ds)"
  shows "length (filter (\<lambda>d. dtype d = k) ds) =
         length (filter (\<lambda>i. mismatch a b i \<and> kind_at a b i = k) [0..<m])"
proof -
  have "length (filter (\<lambda>d. dtype d = k) ds) = length (filter (\<lambda>t. t = k) (map dtype ds))"
    by (simp add: filter_map comp_def)
  also have "\<dots> = length (filter (\<lambda>i. kind_at a b i = k) (map position ds))"
    by (simp add: assms(2) filter_map comp_def)
  also have "\<dots> = length (filter (\<lambda>i. mismatch a b i \<and> kind_at a b i = k) [0..<m])"
    by (simp add: assms(1) conj_commute)
  finally show ?thesis .
qed

text \<open>
  C10: the differences of two strings hold exactly \<open>len(b) - len(a)\<close> insertions (none
  when \<open>b\<close> is not longer) and exactly \<open>len(a) - len(b)\<close> deletions, each at a position
  not below the smaller length; the positions are strictly increasing and below the
  greater length.
\<close>

theorem find_string_differences_counts:
  "\<exists>ds. find_string_differences P a b = Inr ds
      \<and> length (filter (\<lambda>d. dtype d = ''insertion'') ds) = length b - length a
      \<and> length (filter (\<lambda>d. dtype d = ''deletion'') ds) = length a - length b
      \<and> (\<forall>d\<in>set ds. dtype d = ''insertion'' \<or> dtype d = ''deletion'' \<longrightarrow>
            min (length a) (length b) \<le> position d)
      \<and> sorted_wrt (<) (map position ds)
      \<and> (\<forall>d\<in>set ds. position d < max (length a) (length b))"
proof -
  let ?m = "max (length a) (length b)"
  obtain ds where ds: "find_string_differences P a b = Inr ds"
    "map position ds = filter (mismatch a b) [0..<?m]"
    "map dtype ds = map (kind_at a b) (map position ds)"
    using find_string_differences_spec [of P a b] by blast
  have mem: "position d < ?m \<and> mismatch a b (position d) \<and> dtype d = kind_at a b (position d)"
    if "d \<in> set ds" for d
  proof -
    from that have "position d \<in> set (map position ds)" by simp
    then have "position d < ?m \<and> mismatch a b (position d)"
      unfolding ds(2) by simp
    moreover have "dtype d = kind_at a b (position d)"
      using ds(3) that by (simp add: map_eq_map_map)
    ultimately show ?thesis by simp
  qed
  have "length (filter (\<lambda>d. dtype d = ''insertion'') ds) =
        length (filter (\<lambda>i. mismatch a b i \<and> kind_at a b i = ''insertion'') [0..<?m])"
    using count_kind [OF ds(2) ds(3)] .
  also have "\<dots> = length (filter (\<lambda>i. length a \<le> i) [0..<?m])"
    by (rule arg_cong [where f = length], rule filter_cong) (simp_all add: kind_at_insertion)
  also have "\<dots> = length b - length a"
    by (simp add: length_filter_le_upt)
  finally have ins: "length (filter (\<lambda>d. dtype d = ''insertion'') ds) = length b - length a" .
  have "length (filter (\<lambda>d. dtype d = ''deletion'') ds) =
        length (filter (\<lambda>i. mismatch a b i \<and> kind_at a b i = ''deletion'') [0..<?m])"
    using count_kind [OF ds(2) ds(3)] .
  also have "\<dots> = length (filter (\<lambda>i. length b \<le> i) [0..<?m])"
    by (rule arg_cong [where f = length], rule filter_cong) (simp_all add: kind_at_deletion)
  also have "\<dots> = length a - length b"
    by (simp add: length_filter_le_upt)
  finally have del: "length (filter (\<lambda>d. dtype d = ''deletion'') ds) = length a - length b" .
  have low: "min (length a) (length b) \<le> position d"
    if "d \<in> set ds" and "dtype d = ''insertion'' \<or> dtype d = ''deletion''" for d
  proof -
    from mem [OF that(1)] have m: "position d < ?m" "mismatch a b (position d)"
      "dtype d = kind_at a b (position d)" by simp_all
    from that(2) show ?thesis
    proof
      assume "dtype d = ''insertion''"
      with m kind_at_insertion [of "position d" a b] show ?thesis by simp
    next
      assume "dtype d = ''deletion''"
      with m kind_at_deletion [of "position d" a b] show ?thesis by simp
    qed
  qed
  have "sorted_wrt (<) (map position ds)"
    unfolding ds(2) by (simp add: sorted_wrt_filter)
  with ds(1) ins del low mem show ?thesis
    by (intro exI [of _ ds]) blast
qed

theorem find_string_differences_counts_witness:
  "\<forall>P. \<exists>ds. find_string_differences P [0x61, 0x62] [0x61, 0x78, 0x63, 0x64] = Inr ds
      \<and> length (filter (\<lambda>d. dtype d = ''insertion'') ds) = 2
      \<and> length (filter (\<lambda>d. dtype d = ''deletion'') ds) = 0
      \<and> sorted_wrt (<) (map position ds)"
proof
  fix P :: platform
  show "\<exists>ds. find_string_differences P [0x61, 0x62] [0x61, 0x78, 0x63, 0x64] = Inr ds
      \<and> length (filter (\<lambda>d. dtype d = ''insertion'') ds) = 2
      \<and> length (filter (\<lambda>d. dtype d = ''deletion'') ds) = 0
      \<and> sorted_wrt (<) (map position ds)"
    using find_string_differences_counts [of P "[0x61, 0x62]" "[0x61, 0x78, 0x63, 0x64]"]
    by auto
qed

subsection \<open>normalize_dataframes\<close>

lemma add_missing_split:
  "add_missing order (d1, d2) = (add_cols order d1, add_cols order d2)"
  by (induction order arbitrary: d1 d2) (simp_all add: add_cols_def Let_def)

lemma row_get_map: "row_get cs (map f cs) c = (if c \<in> set cs then f c else NaN)"
  by (simp add: row_get_def map_of_zip_map)

lemma row_get_snoc:
  assumes "length r = length cs" "c0 \<notin> set cs"
  shows "row_get (cs @ [c0]) (r @ [v]) c = (if c = c0 then v else row_get cs r c)"
proof -
  have z: "zip (cs @ [c0]) (r @ [v]) = zip cs r @ [(c0, v)]"
    using assms(1) by simp
  have none: "map_of (zip cs r) x = None \<longleftrightarrow> x \<notin> set cs" for x
    using assms(1) by (simp add: map_of_zip_is_None)
  show ?thesis
  proof (cases "map_of (zip cs r) c")
    case None
    then show ?thesis
      by (simp add: row_get_def z map_add_def)
  next
    case (Some y)
    with none [of c] have "c \<in> set cs" by auto
    with assms(2) have "c \<noteq> c0" by auto
    with Some show ?thesis
      by (simp add: row_get_def z map_add_def)
  qed
qed

lemma row_get_self:
  assumes "distinct cs" "length r = length cs"
  shows "map (row_get cs r) cs = r"
proof (rule nth_equalityI)
  show "length (map (row_get cs r) cs) = length r"
    using assms by simp
next
  fix i assume "i < length (map (row_get cs r) cs)"
  then have i: "i < length cs" by simp
  have "map_of (zip cs r) (cs ! i) = Some (r ! i)"
    using assms i by (simp add: map_of_zip_nth)
  then show "map (row_get cs r) cs ! i = r ! i"
    using i by (simp add: row_get_def)
qed

lemma set_column_new:
  assumes "wf_frame d" "c0 \<notin> set (columns d)"
  shows "wf_frame (df_set_column d c0 v)"
    and "columns (df_set_column d c0 v) = columns d @ [c0]"
    and "length (rows (df_set_column d c0 v)) = length (rows d)"
    and "i < length (rows d) \<Longrightarrow>
         row_get (columns (df_set_column d c0 v)) (rows (df_set_column d c0 v) ! i) c =
         (if c = c0 then v else row_get (columns d) (rows d ! i) c)"
  using assms by (auto simp: wf_frame_def df_set_column_def row_get_snoc)

lemma add_cols_spec:
  "wf_frame d \<Longrightarrow>
   wf_frame (add_cols order d)
   \<and> set (columns (add_cols order d)) = set (columns d) \<union> set order
   \<and> length (rows (add_cols order d)) = length (rows d)
   \<and> (\<forall>i<length (rows d). \<forall>c.
        row_get (columns (add_cols order d)) (rows (add_cols order d) ! i) c =
        (if c \<in> set (columns d) then row_get (columns d) (rows d ! i) c
         else if c \<in> set order then Str [] else NaN))"
proof (induction order arbitrary: d)
  case Nil
  have "row_get (columns d) (rows d ! i) c = NaN" if "c \<notin> set (columns d)" "i < length (rows d)" for i c
  proof -
    from that Nil have "length (rows d ! i) = length (columns d)"
      by (simp add: wf_frame_def)
    with that(1) show ?thesis
      by (simp add: row_get_def map_of_zip_is_None [THEN iffD2])
  qed
  with Nil show ?case by (simp add: add_cols_def)
next
  case (Cons c0 order)
  show ?case
  proof (cases "c0 \<in> set (columns d)")
    case True
    then have "add_cols (c0 # order) d = add_cols order d"
      by (simp add: add_cols_def)
    with Cons.IH [OF Cons.prems] True show ?thesis by auto
  next
    case False
    let ?d = "df_set_column d c0 (Str [])"
    have eq: "add_cols (c0 # order) d = add_cols order ?d"
      using False by (simp add: add_cols_def)
    note sc = set_column_new [OF Cons.prems False, where v = "Str []"]
    from Cons.IH [OF sc(1)] sc(2,3) sc(4) False show ?thesis
      unfolding eq by auto
  qed
qed

lemma pad_rows:
  assumes "wf_frame d"
  shows "(if df_len d < m
          then df_concat d (df_const v (m - df_len d) (columns d)) else d) =
         \<lparr>columns = columns d,
          rows = rows d @ replicate (m - length (rows d)) (map (\<lambda>_. v) (columns d))\<rparr>"
proof (cases "df_len d < m")
  case False
  then show ?thesis by (simp add: df_len_def)
next
  case True
  have own: "map (\<lambda>r. map (row_get (columns d) r) (columns d)) (rows d) = rows d"
    using assms by (intro map_idI) (simp add: wf_frame_def row_get_self)
  have "filter (\<lambda>c. c \<notin> set (columns d)) (columns d) = []"
    by (simp add: filter_empty_conv)
  then have "df_concat d (df_const v (m - df_len d) (columns d)) =
      \<lparr>columns = columns d,
       rows = rows d @ replicate (m - length (rows d)) (map (\<lambda>_. v) (columns d))\<rparr>"
    using own by (simp add: df_concat_def df_const_def df_reindex_def df_len_def Let_def row_get_map)
  with True show ?thesis by simp
qed

lemma reindex_add_cols:
  assumes "wf_frame df" "set cs \<subseteq> set (columns df) \<union> set order"
  shows "df_reindex (add_cols order df) cs =
     \<lparr>columns = cs,
      rows = map (\<lambda>r. map (\<lambda>c. if c \<in> set (columns df) then row_get (columns df) r c else Str []) cs)
                 (rows df)\<rparr>"
proof -
  note ac = add_cols_spec [OF assms(1), of order]
  have "map (\<lambda>r. map (row_get (columns (add_cols order df)) r) cs) (rows (add_cols order df)) =
        map (\<lambda>r. map (\<lambda>c. if c \<in> set (columns df) then row_get (columns df) r c else Str []) cs)
            (rows df)"
  proof (rule nth_equalityI)
    show "length (map (\<lambda>r. map (row_get (columns (add_cols order df)) r) cs)
                   (rows (add_cols order df))) =
          length (map (\<lambda>r. map (\<lambda>c. if c \<in> set (columns df) then row_get (columns df) r c
                                     else Str []) cs) (rows df))"
      using ac by simp
  next
    fix i
    assume "i < length (map (\<lambda>r. map (row_get (columns (add_cols order df)) r) cs)
                          (rows (add_cols order df)))"
    then have i: "i < length (rows df)" using ac by simp
    have "map (row_get (columns (add_cols order df)) (rows (add_cols order df) ! i)) cs =
          map (\<lambda>c. if c \<in> set (columns df) then row_get (columns df) (rows df ! i) c else Str []) cs"
      using ac i assms(2) by (intro map_cong) auto
    then show "map (\<lambda>r. map (row_get (columns (add_cols order df)) r) cs)
                 (rows (add_cols order df)) ! i =
               map (\<lambda>r. map (\<lambda>c. if c \<in> set (columns df) then row_get (columns df) r c
                                  else Str []) cs) (rows df) ! i"
      using ac i by simp
  qed
  then show ?thesis by (simp add: df_reindex_def)
qed

lemma normalize_dataframes_spec:
  assumes "wf_frame df1" "wf_frame df2"
    and "set (set_order P (columns df1 @ columns df2)) = set (columns df1) \<union> set (columns df2)"
  shows "normalize_dataframes P df1 df2 =
     (\<lparr>columns = sort (remdups (columns df1 @ columns df2)),
       rows = aligned_rows (sort (remdups (columns df1 @ columns df2))) df1
                (max (length (rows df1)) (length (rows df2)))\<rparr>,
      \<lparr>columns = sort (remdups (columns df1 @ columns df2)),
       rows = aligned_rows (sort (remdups (columns df1 @ columns df2))) df2
                (max (length (rows df1)) (length (rows df2)))\<rparr>)"
proof -
  let ?cs = "sort (remdups (columns df1 @ columns df2))"
  let ?o = "set_order P (columns df1 @ columns df2)"
  let ?f = "\<lambda>df. map (\<lambda>r. map (\<lambda>c. if c \<in> set (columns df) then row_get (columns df) r c else Str []) ?cs) (rows df)"
  let ?r1 = "\<lparr>columns = ?cs, rows = ?f df1\<rparr>" and ?r2 = "\<lparr>columns = ?cs, rows = ?f df2\<rparr>"
  have sub1: "set ?cs \<subseteq> set (columns df1) \<union> set ?o" and sub2: "set ?cs \<subseteq> set (columns df2) \<union> set ?o"
    using assms(3) by auto
  have r1: "df_reindex (add_cols ?o df1) ?cs = ?r1"
    using reindex_add_cols [OF assms(1) sub1] .
  have r2: "df_reindex (add_cols ?o df2) ?cs = ?r2"
    using reindex_add_cols [OF assms(2) sub2] .
  have wf1: "wf_frame ?r1" and wf2: "wf_frame ?r2"
    by (simp_all add: wf_frame_def)
  have p1: "(if df_len ?r1 < m then df_concat ?r1 (df_const (Str []) (m - df_len ?r1) (columns ?r1)) else ?r1)
      = \<lparr>columns = ?cs, rows = aligned_rows ?cs df1 m\<rparr>" for m
    using pad_rows [OF wf1, of m "Str []"] by (simp add: aligned_rows_def)
  have p2: "(if df_len ?r2 < m then df_concat ?r2 (df_const (Str []) (m - df_len ?r2) (columns ?r2)) else ?r2)
      = \<lparr>columns = ?cs, rows = aligned_rows ?cs df2 m\<rparr>" for m
    using pad_rows [OF wf2, of m "Str []"] by (simp add: aligned_rows_def)
  have m: "max (df_len ?r1) (df_len ?r2) = max (length (rows df1)) (length (rows df2))"
    by (simp add: df_len_def)
  show ?thesis
    unfolding normalize_dataframes_def Let_def add_missing_split prod.case r1 r2 m p1 p2 ..
qed

lemma aligned_rows_length:
  "length (aligned_rows cs df n) = max (length (rows df)) n"
  by (simp add: aligned_rows_def)

lemma aligned_rows_nth:
  assumes "i < max (length (rows df)) n"
  shows "aligned_rows cs df n ! i =
     map (\<lambda>c. if i < length (rows df) \<and> c \<in> set (columns df)
               then row_get (columns df) (rows df ! i) c else Str []) cs"
proof (cases "i < length (rows df)")
  case True
  then show ?thesis
    by (simp add: aligned_rows_def nth_append)
next
  case False
  with assms show ?thesis
    by (simp add: aligned_rows_def nth_append)
qed

lemma aligned_wf:
  "distinct cs \<Longrightarrow> wf_frame \<lparr>columns = cs, rows = aligned_rows cs df n\<rparr>"
  by (auto simp: wf_frame_def aligned_rows_def)

lemma normalize_dataframes_props:
  assumes "wf_frame df1" and "wf_frame df2"
    and "set (set_order P (columns df1 @ columns df2)) = set (columns df1) \<union> set (columns df2)"
    and "normalize_dataframes P df1 df2 = (d1, d2)"
  shows "columns d1 = sort (remdups (columns df1 @ columns df2))
     \<and> columns d1 = sorted_list_of_set (set (columns df1) \<union> set (columns df2))
     \<and> columns d2 = columns d1
     \<and> length (rows d1) = max (length (rows df1)) (length (rows df2))
     \<and> length (rows d2) = max (length (rows df1)) (length (rows df2))
     \<and> (\<forall>r\<in>set (rows d1). length r = length (columns d1))
     \<and> (\<forall>r\<in>set (rows d2). length r = length (columns d2))
     \<and> (\<forall>i<length (rows d1). \<forall>c\<in>set (columns d1).
          row_get (columns d1) (rows d1 ! i) c =
          (if i < length (rows df1) \<and> c \<in> set (columns df1)
           then row_get (columns df1) (rows df1 ! i) c else Str []))
     \<and> (\<forall>i<length (rows d2). \<forall>c\<in>set (columns d2).
          row_get (columns d2) (rows d2 ! i) c =
          (if i < length (rows df2) \<and> c \<in> set (columns df2)
           then row_get (columns df2) (rows df2 ! i) c else Str []))"
proof -
  let ?cs = "sort (remdups (columns df1 @ columns df2))"
  let ?n = "max (length (rows df1)) (length (rows df2))"
  have d1: "d1 = \<lparr>columns = ?cs, rows = aligned_rows ?cs df1 ?n\<rparr>"
    and d2: "d2 = \<lparr>columns = ?cs, rows = aligned_rows ?cs df2 ?n\<rparr>"
    using normalize_dataframes_spec [OF assms(1-3)] assms(4) by simp_all
  have cs: "?cs = sorted_list_of_set (set (columns df1) \<union> set (columns df2))"
    by (simp add: sorted_list_of_set_sort_remdups [symmetric])
  have dist: "distinct ?cs" by simp
  have len1: "length (rows d1) = ?n" and len2: "length (rows d2) = ?n"
    by (simp_all add: d1 d2 aligned_rows_length)
  have w1: "\<forall>r\<in>set (rows d1). length r = length (columns d1)"
    using aligned_wf [OF dist, of df1 ?n] by (simp add: d1 wf_frame_def)
  have w2: "\<forall>r\<in>set (rows d2). length r = length (columns d2)"
    using aligned_wf [OF dist, of df2 ?n] by (simp add: d2 wf_frame_def)
  have v1: "\<forall>i<length (rows d1). \<forall>c\<in>set (columns d1).
          row_get (columns d1) (rows d1 ! i) c =
          (if i < length (rows df1) \<and> c \<in> set (columns df1)
           then row_get (columns df1) (rows df1 ! i) c else Str [])"
    by (simp add: d1 aligned_rows_length aligned_rows_nth row_get_map)
  have v2: "\<forall>i<length (rows d2). \<forall>c\<in>set (columns d2).
          row_get (columns d2) (rows d2 ! i) c =
          (if i < length (rows df2) \<and> c \<in> set (columns df2)
           then row_get (columns df2) (rows df2 ! i) c else Str [])"
    by (simp add: d2 aligned_rows_length aligned_rows_nth row_get_map)
  have c1: "columns d1 = ?cs" and c2: "columns d2 = columns d1"
    by (simp_all add: d1 d2)
  from c1 c2 cs len1 len2 w1 w2 v1 v2 show ?thesis
    by (intro conjI) simp_all
qed

text \<open>
  C3: the two aligned frames have the same columns, the union of the input columns in
  lexicographic order, and the same number of rows, the greater of the two inputs; every
  row has a cell for every column; the cell of an input row under an input column keeps
  its value and its row index, and every other cell (a column the input lacks, or a row
  beyond its last) is the empty string.
\<close>

theorem normalize_dataframes_aligned:
  assumes "wf_frame df1" and "wf_frame df2"
    and "set (set_order P (columns df1 @ columns df2)) = set (columns df1) \<union> set (columns df2)"
    and "normalize_dataframes P df1 df2 = (d1, d2)"
  shows "columns d1 = sort (remdups (columns df1 @ columns df2))
     \<and> columns d1 = sorted_list_of_set (set (columns df1) \<union> set (columns df2))
     \<and> columns d2 = columns d1
     \<and> length (rows d1) = max (length (rows df1)) (length (rows df2))
     \<and> length (rows d2) = max (length (rows df1)) (length (rows df2))
     \<and> (\<forall>r\<in>set (rows d1). length r = length (columns d1))
     \<and> (\<forall>r\<in>set (rows d2). length r = length (columns d2))
     \<and> (\<forall>i<length (rows d1). \<forall>c\<in>set (columns d1).
          row_get (columns d1) (rows d1 ! i) c =
          (if i < length (rows df1) \<and> c \<in> set (columns df1)
           then row_get (columns df1) (rows df1 ! i) c else Str []))
     \<and> (\<forall>i<length (rows d2). \<forall>c\<in>set (columns d2).
          row_get (columns d2) (rows d2 ! i) c =
          (if i < length (rows df2) \<and> c \<in> set (columns df2)
           then row_get (columns df2) (rows df2 ! i) c else Str []))"
  using normalize_dataframes_props [OF assms] .

theorem normalize_dataframes_aligned_witness:
  "\<forall>P. wf_frame \<lparr>columns = [[0x42], [0x41]], rows = [[Str [0x31], Str [0x32]]]\<rparr>
     \<and> wf_frame \<lparr>columns = [[0x42], [0x43]],
                  rows = [[Str [0x33], Str [0x34]], [Str [0x35], Str [0x36]]]\<rparr>
     \<and> columns (fst (normalize_dataframes (P\<lparr>set_order := remdups\<rparr>)
          \<lparr>columns = [[0x42], [0x41]], rows = [[Str [0x31], Str [0x32]]]\<rparr>
          \<lparr>columns = [[0x42], [0x43]],
            rows = [[Str [0x33], Str [0x34]], [Str [0x35], Str [0x36]]]\<rparr>))
        = [[0x41], [0x42], [0x43]]
     \<and> length (rows (fst (normalize_dataframes (P\<lparr>set_order := remdups\<rparr>)
          \<lparr>columns = [[0x42], [0x41]], rows = [[Str [0x31], Str [0x32]]]\<rparr>
          \<lparr>columns = [[0x42], [0x43]],
            rows = [[Str [0x33], Str [0x34]], [Str [0x35], Str [0x36]]]\<rparr>))) = 2"
proof
  fix P :: platform
  let ?P = "P\<lparr>set_order := remdups\<rparr>"
  let ?a = "\<lparr>columns = [[0x42], [0x41]], rows = [[Str [0x31], Str [0x32]]]\<rparr>"
  let ?b = "\<lparr>columns = [[0x42], [0x43]],
            rows = [[Str [0x33], Str [0x34]], [Str [0x35], Str [0x36]]]\<rparr>"
  have wa: "wf_frame ?a" and wb: "wf_frame ?b"
    by (simp_all add: wf_frame_def)
  have so: "set (set_order ?P (columns ?a @ columns ?b)) = set (columns ?a) \<union> set (columns ?b)"
    by auto
  have n: "normalize_dataframes ?P ?a ?b =
           (fst (normalize_dataframes ?P ?a ?b), snd (normalize_dataframes ?P ?a ?b))"
    by simp
  from normalize_dataframes_aligned [OF wa wb so n]
  have "columns (fst (normalize_dataframes ?P ?a ?b)) = sort (remdups (columns ?a @ columns ?b))"
    and "length (rows (fst (normalize_dataframes ?P ?a ?b))) =
         max (length (rows ?a)) (length (rows ?b))"
    by blast+
  then show "wf_frame ?a \<and> wf_frame ?b
     \<and> columns (fst (normalize_dataframes ?P ?a ?b)) = [[0x41], [0x42], [0x43]]
     \<and> length (rows (fst (normalize_dataframes ?P ?a ?b))) = 2"
    using wa wb by simp
qed

subsection \<open>compare_cells and the comparison loops\<close>

lemma compare_cells_spec:
  "compare_cells self P v1 v2 =
     (if normalized self P v1 = normalized self P v2 then Inr (True, None)
      else case analyze_difference P (normalized self P v1) (normalized self P v2) of
             Inl e \<Rightarrow> Inl e
           | Inr a \<Rightarrow> Inr (False, Some a))"
  by (simp add: compare_cells_def normalized_def Let_def)

lemma iloc_wf:
  "r < length (rows d) \<Longrightarrow> length (rows d ! r) = length (columns d) \<Longrightarrow>
   j < length (columns d) \<Longrightarrow> iloc d r j = Inr (rows d ! r ! j)"
  by (simp add: iloc_def)

lemma col_loop_spec:
  assumes "r < length (rows d1)" "r < length (rows d2)"
    and "length (rows d1 ! r) = length (columns d1)"
    and "length (rows d2 ! r) = length (columns d2)"
    and "length (columns d2) = length (columns d1)"
    and "\<forall>p\<in>set cols. fst p < length (columns d1) \<and> snd p = columns d1 ! fst p"
  shows "\<exists>new. col_loop self P d1 d2 r cols (found, k) = Inr (found @ new, k + int (length new))
      \<and> map (\<lambda>d. (row d, col d)) new =
          map (\<lambda>p. (r, fst p)) (filter (\<lambda>p. cell_differs self P d1 d2 r (fst p)) cols)
      \<and> (\<forall>d\<in>set new. cell_record self P d1 d2 d)"
  using assms(6)
proof (induction cols arbitrary: found k)
  case Nil
  show ?case by simp
next
  case (Cons p cols)
  obtain j name where p: "p = (j, name)" by (cases p)
  from Cons.prems p have j: "j < length (columns d1)" and name: "name = columns d1 ! j"
    by simp_all
  from Cons.prems have rest: "\<forall>p\<in>set cols. fst p < length (columns d1) \<and> snd p = columns d1 ! fst p"
    by simp
  let ?v1 = "py_str (rows d1 ! r ! j)" and ?v2 = "py_str (rows d2 ! r ! j)"
  have i1: "iloc d1 r j = Inr (rows d1 ! r ! j)"
    using assms(1,3) j by (rule iloc_wf)
  have i2: "iloc d2 r j = Inr (rows d2 ! r ! j)"
    using assms(2,4) j assms(5) by (simp add: iloc_wf)
  show ?case
  proof (cases "cell_differs self P d1 d2 r j")
    case False
    then have cc: "compare_cells self P ?v1 ?v2 = Inr (True, None)"
      by (simp add: compare_cells_spec cell_differs_def)
    have "col_loop self P d1 d2 r (p # cols) (found, k) = col_loop self P d1 d2 r cols (found, k)"
      by (simp add: p i1 i2 cc Let_def)
    with Cons.IH [OF rest, of found k] False p show ?thesis by simp
  next
    case True
    obtain a where a: "analyze_difference P (normalized self P ?v1) (normalized self P ?v2) = Inr a"
      using analyze_difference_total by blast
    have cc: "compare_cells self P ?v1 ?v2 = Inr (False, Some a)"
      using True a by (simp add: compare_cells_spec cell_differs_def)
    define d0 where "d0 = \<lparr>row = r, col = j, col_name = name,
      original = ?v1, target = ?v2,
      original_repr = py_repr P ?v1, target_repr = py_repr P ?v2,
      char_diff_positions = diff_positions a, unicode_analysis = Some a\<rparr>"
    have step: "col_loop self P d1 d2 r (p # cols) (found, k) =
                col_loop self P d1 d2 r cols (found @ [d0], k + 1)"
      by (simp add: p i1 i2 cc d0_def Let_def)
    have ok: "cell_record self P d1 d2 d0"
      using a name by (simp add: cell_record_def d0_def)
    obtain new where new:
      "col_loop self P d1 d2 r cols (found @ [d0], k + 1) =
         Inr ((found @ [d0]) @ new, (k + 1) + int (length new))"
      "map (\<lambda>d. (row d, col d)) new =
         map (\<lambda>p. (r, fst p)) (filter (\<lambda>p. cell_differs self P d1 d2 r (fst p)) cols)"
      "\<forall>d\<in>set new. cell_record self P d1 d2 d"
      using Cons.IH [OF rest, of "found @ [d0]" "k + 1"] by blast
    have "col_loop self P d1 d2 r (p # cols) (found, k) =
          Inr (found @ (d0 # new), k + int (length (d0 # new)))"
      using step new(1) by simp
    moreover have "map (\<lambda>d. (row d, col d)) (d0 # new) =
        map (\<lambda>p. (r, fst p)) (filter (\<lambda>p. cell_differs self P d1 d2 r (fst p)) (p # cols))"
      using True new(2) p by (simp add: d0_def)
    moreover have "\<forall>d\<in>set (d0 # new). cell_record self P d1 d2 d"
      using ok new(3) by simp
    ultimately show ?thesis by blast
  qed
qed

lemma enumerate_filter_fst:
  "map (\<lambda>p. (r, fst p)) (filter (\<lambda>p. Q (fst p)) (enumerate 0 cs)) =
   map (Pair r) (filter Q [0..<length cs])"
proof -
  have "map (Pair r) (filter Q (map fst (enumerate 0 cs))) =
        map (Pair r) (map fst (filter (Q \<circ> fst) (enumerate 0 cs)))"
    by (simp only: filter_map)
  then show ?thesis by (simp add: comp_def)
qed

lemma row_loop_spec:
  assumes "\<forall>r\<in>set rs. r < length (rows d1) \<and> r < length (rows d2)
             \<and> length (rows d1 ! r) = length (columns d1)
             \<and> length (rows d2 ! r) = length (columns d2)"
    and "length (columns d2) = length (columns d1)"
  shows "\<exists>new. row_loop self P d1 d2 rs (found, k) = Inr (found @ new, k + int (length new))
      \<and> map (\<lambda>d. (row d, col d)) new =
          filter (\<lambda>(r, j). cell_differs self P d1 d2 r j)
                 (List.product rs [0..<length (columns d1)])
      \<and> (\<forall>d\<in>set new. cell_record self P d1 d2 d)"
  using assms(1)
proof (induction rs arbitrary: found k)
  case Nil
  show ?case by simp
next
  case (Cons r rs)
  from Cons.prems have r: "r < length (rows d1)" "r < length (rows d2)"
    "length (rows d1 ! r) = length (columns d1)" "length (rows d2 ! r) = length (columns d2)"
    and rest: "\<forall>r\<in>set rs. r < length (rows d1) \<and> r < length (rows d2)
             \<and> length (rows d1 ! r) = length (columns d1)
             \<and> length (rows d2 ! r) = length (columns d2)"
    by simp_all
  have en: "\<forall>p\<in>set (enumerate 0 (columns d1)). fst p < length (columns d1) \<and> snd p = columns d1 ! fst p"
    by (auto simp: in_set_enumerate_eq)
  obtain n1 where n1:
    "col_loop self P d1 d2 r (enumerate 0 (columns d1)) (found, k) =
       Inr (found @ n1, k + int (length n1))"
    "map (\<lambda>d. (row d, col d)) n1 =
       map (\<lambda>p. (r, fst p))
         (filter (\<lambda>p. cell_differs self P d1 d2 r (fst p)) (enumerate 0 (columns d1)))"
    "\<forall>d\<in>set n1. cell_record self P d1 d2 d"
    using col_loop_spec [OF r assms(2) en, of self P found k] by blast
  have pos1: "map (\<lambda>d. (row d, col d)) n1 =
      map (Pair r) (filter (cell_differs self P d1 d2 r) [0..<length (columns d1)])"
    using n1(2) by (simp only: enumerate_filter_fst)
  obtain n2 where n2:
    "row_loop self P d1 d2 rs (found @ n1, k + int (length n1)) =
       Inr ((found @ n1) @ n2, (k + int (length n1)) + int (length n2))"
    "map (\<lambda>d. (row d, col d)) n2 =
       filter (\<lambda>(r, j). cell_differs self P d1 d2 r j) (List.product rs [0..<length (columns d1)])"
    "\<forall>d\<in>set n2. cell_record self P d1 d2 d"
    using Cons.IH [OF rest, of "found @ n1" "k + int (length n1)"] by blast
  have "row_loop self P d1 d2 (r # rs) (found, k) =
        Inr (found @ (n1 @ n2), k + int (length (n1 @ n2)))"
    using n1(1) n2(1) by simp
  moreover have "map (\<lambda>d. (row d, col d)) (n1 @ n2) =
      filter (\<lambda>(r, j). cell_differs self P d1 d2 r j) (List.product (r # rs) [0..<length (columns d1)])"
    using pos1 n2(2) by (simp add: filter_map comp_def)
  moreover have "\<forall>d\<in>set (n1 @ n2). cell_record self P d1 d2 d"
    using n1(3) n2(3) by auto
  ultimately show ?case by blast
qed

subsection \<open>Division\<close>

lemma round_half_even_close: "\<bar>of_int (round_half_even x) - x\<bar> \<le> 1 / 2"
  unfolding round_half_even_def Let_def
  by (auto simp: abs_if) linarith+

lemma bitlen_powi_bounds:
  assumes "0 < a"
  shows "(2::rat) powi (bitlen a - 1) \<le> of_int a" and "of_int a < (2::rat) powi bitlen a"
proof -
  from assms have b: "2 ^ nat (bitlen a - 1) \<le> a" "a < 2 ^ nat (bitlen a)"
    using bitlen_bounds by auto
  have "bitlen a \<noteq> 0"
    using assms by (simp add: bitlen_eq_zero_iff)
  with bitlen_nonneg [of a] have pos: "0 < bitlen a" by simp
  have "(2::rat) powi (bitlen a - 1) = 2 ^ nat (bitlen a - 1)"
    using pos by (simp add: power_int_def)
  also have "\<dots> = of_int (2 ^ nat (bitlen a - 1))" by simp
  also have "\<dots> \<le> of_int a" using b(1) by (simp only: of_int_le_iff)
  finally show "(2::rat) powi (bitlen a - 1) \<le> of_int a" .
  have "of_int a < (of_int (2 ^ nat (bitlen a)) :: rat)"
    using b(2) by (simp only: of_int_less_iff)
  also have "\<dots> = 2 powi bitlen a"
    using pos by (simp add: power_int_def)
  finally show "of_int a < (2::rat) powi bitlen a" .
qed

lemma binade_bounds:
  assumes "0 < q"
  shows "2 powi binade q \<le> q \<and> q < 2 powi (binade q + 1)"
proof -
  obtain a b where ab: "quotient_of q = (a, b)" by (cases "quotient_of q")
  then have b: "0 < b" and q: "q = of_int a / of_int b"
    using quotient_of_denom_pos quotient_of_div by auto
  with assms have a: "0 < a"
    by (simp add: zero_less_divide_iff)
  let ?la = "bitlen a" and ?lb = "bitlen b"
  note ba = bitlen_powi_bounds [OF a] and bb = bitlen_powi_bounds [OF b]
  have p: "0 < (2::rat) powi k" for k by simp
  have rb: "0 < (of_int b :: rat)" using b by simp
  have "q < 2 powi ?la / of_int b"
    unfolding q using ba(2) rb by (rule divide_strict_right_mono)
  also have "\<dots> \<le> 2 powi ?la / 2 powi (?lb - 1)"
    using bb(1) p b by (intro divide_left_mono mult_pos_pos) (simp_all add: less_imp_le)
  also have "\<dots> = 2 powi (?la - ?lb + 1)"
    by (simp add: power_int_diff [symmetric] algebra_simps)
  finally have up: "q < 2 powi (?la - ?lb + 1)" .
  have "2 powi (?la - ?lb - 1) = (2::rat) powi (?la - 1) / 2 powi ?lb"
    by (simp add: power_int_diff [symmetric] algebra_simps)
  also have "\<dots> \<le> of_int a / 2 powi ?lb"
    using ba(1) p by (intro divide_right_mono) (simp_all add: less_imp_le)
  also have "\<dots> \<le> of_int a / of_int b"
    using bb(2) a b by (intro divide_left_mono mult_pos_pos) (simp_all add: less_imp_le)
  finally have lo: "2 powi (?la - ?lb - 1) \<le> q" by (simp add: q)
  show ?thesis
  proof (cases "2 powi (?la - ?lb) \<le> q")
    case True
    then have "binade q = ?la - ?lb" by (simp add: binade_def ab)
    with True up show ?thesis by simp
  next
    case False
    then have "binade q = ?la - ?lb - 1" by (simp add: binade_def ab)
    with False lo show ?thesis by simp
  qed
qed

lemma binade_unit:
  assumes "0 < q" "q \<le> 1"
  shows "binade q \<le> 0"
proof (rule ccontr)
  assume "\<not> binade q \<le> 0"
  then have "1 \<le> binade q" by simp
  then have "(2::rat) powi 1 \<le> 2 powi binade q"
    by (intro power_int_increasing) simp_all
  with binade_bounds [OF assms(1)] assms(2) show False by simp
qed

lemma nearest_double_close:
  assumes "0 \<le> q" "q \<le> 1"
  shows "\<bar>nearest_double q - q\<bar> \<le> 1 / 2 ^ 53"
proof (cases "q = 0")
  case True
  then show ?thesis by (simp add: nearest_double_def)
next
  case False
  with assms have pos: "0 < q" by simp
  define e where "e = max (binade \<bar>q\<bar>) (- 1022)"
  define u :: rat where "u = 2 powi (e - 52)"
  have e: "e \<le> 0"
    using binade_unit [OF pos assms(2)] pos by (simp add: e_def)
  have u0: "0 < u" by (simp add: u_def)
  have "u \<le> 2 powi (- 52)"
    unfolding u_def using e by (intro power_int_increasing) simp_all
  also have "\<dots> = 1 / 2 ^ 52"
    by (simp add: power_int_minus field_simps)
  finally have u52: "u \<le> 1 / 2 ^ 52" .
  have nd: "nearest_double q = of_int (round_half_even (q / u)) * u"
    using pos by (simp add: nearest_double_def e_def u_def Let_def)
  have "nearest_double q - q = (of_int (round_half_even (q / u)) - q / u) * u"
    using u0 by (simp add: nd left_diff_distrib)
  then have "\<bar>nearest_double q - q\<bar> = \<bar>of_int (round_half_even (q / u)) - q / u\<bar> * u"
    using u0 by (simp add: abs_mult)
  also have "\<dots> \<le> (1 / 2) * u"
    using round_half_even_close [of "q / u"] u0 by (intro mult_right_mono) simp_all
  also have "\<dots> \<le> (1 / 2) * (1 / 2 ^ 52)"
    using u52 by simp
  also have "\<dots> = 1 / 2 ^ 53" by simp
  finally show ?thesis .
qed

lemma py_truediv_unit:
  assumes "0 \<le> x" "x \<le> t" "0 < t"
  shows "py_truediv x t = Inr (nearest_double (of_int x / of_int t))"
proof -
  let ?q = "of_int x / of_int t :: rat"
  have "0 \<le> ?q" "?q \<le> 1"
    using assms by simp_all
  from nearest_double_close [OF this] have "\<bar>nearest_double ?q\<bar> \<le> 1 + 1 / 2 ^ 53"
    using \<open>?q \<le> 1\<close> \<open>0 \<le> ?q\<close> by linarith
  also have "\<dots> < 2 ^ 1024" by simp
  finally show ?thesis
    using assms(3) by (simp add: py_truediv_def Let_def)
qed

lemma py_truediv_zero: "py_truediv x 0 = Inl ZeroDivisionError"
  by (simp add: py_truediv_def)

lemma truediv_guard:
  "0 \<le> x \<Longrightarrow> x \<le> t \<Longrightarrow>
   (if t > 0 then py_truediv x t else Inr 0) =
   Inr (if t > 0 then nearest_double (of_int x / of_int t) else 0)"
  by (simp add: py_truediv_unit)

subsection \<open>compare_files\<close>

lemma length_filter_product_le:
  "int (length (filter Q (List.product [0..<n] [0..<m]))) \<le> int n * int m"
proof -
  have "length (filter Q (List.product [0..<n] [0..<m])) \<le> length (List.product [0..<n] [0..<m])"
    by (rule length_filter_le)
  also have "\<dots> = n * m" by simp
  finally show ?thesis by (metis of_nat_mult of_nat_le_iff)
qed

lemma compare_files_spec:
  assumes "load_csv fs base_file = Inr df1" and "load_csv fs target_file = Inr df2"
    and "wf_frame df1" and "wf_frame df2"
    and "set (set_order P (columns df1 @ columns df2)) = set (columns df1) \<union> set (columns df2)"
    and "stat_size fs base_file = Inr s1" and "detect_encoding fs base_file = Inr e1"
    and "stat_size fs target_file = Inr s2" and "detect_encoding fs target_file = Inr e2"
    and "normalize_dataframes P df1 df2 = (d1, d2)"
  shows "\<exists>res. compare_files self P fs base_file target_file = Inr res
      \<and> total_cells res = int (length (rows d1)) * int (length (columns d1))
      \<and> different_cells res = int (length (cell_differences res))
      \<and> identical_cells res = total_cells res - different_cells res
      \<and> similarity res =
          (if total_cells res > 0
           then nearest_double (of_int (identical_cells res) / of_int (total_cells res))
           else 0)
      \<and> map (\<lambda>d. (row d, col d)) (cell_differences res) =
          filter (\<lambda>(r, j). cell_differs self P d1 d2 r j)
                 (List.product [0..<length (rows d1)] [0..<length (columns d1)])
      \<and> (\<forall>d\<in>set (cell_differences res). cell_record self P d1 d2 d)"
proof -
  note al = normalize_dataframes_props [OF assms(3,4,5,10)]
  have len: "length (rows d2) = length (rows d1)" and cols: "length (columns d2) = length (columns d1)"
    using al by simp_all
  have wf: "\<forall>r\<in>set [0..<length (rows d1)]. r < length (rows d1) \<and> r < length (rows d2)
             \<and> length (rows d1 ! r) = length (columns d1)
             \<and> length (rows d2 ! r) = length (columns d2)"
    using al len by simp
  obtain new where new:
    "row_loop self P d1 d2 [0..<length (rows d1)] ([], 0) = Inr ([] @ new, 0 + int (length new))"
    "map (\<lambda>d. (row d, col d)) new =
       filter (\<lambda>(r, j). cell_differs self P d1 d2 r j)
              (List.product [0..<length (rows d1)] [0..<length (columns d1)])"
    "\<forall>d\<in>set new. cell_record self P d1 d2 d"
    using row_loop_spec [OF wf cols, of self P "[]" 0] by blast
  have loop: "row_loop self P d1 d2 [0..<df_len d1] ([], 0) = Inr (new, int (length new))"
    using new(1) by (simp add: df_len_def)
  let ?total = "int (df_len d1) * int (length (columns d1))"
  have "length new = length (map (\<lambda>d. (row d, col d)) new)" by simp
  then have le: "int (length new) \<le> ?total"
    unfolding new(2) df_len_def using length_filter_product_le by simp
  have g1: "(if ?total > 0 then py_truediv (?total - int (length new)) ?total else Inr 0) =
            Inr (if ?total > 0 then nearest_double (of_int (?total - int (length new)) / of_int ?total) else 0)"
    using le by (intro truediv_guard) simp_all
  have g2: "(if ?total > 0 then py_truediv (int (length new)) ?total else Inr 0) =
            Inr (if ?total > 0 then nearest_double (of_int (int (length new)) / of_int ?total) else 0)"
    using le by (intro truediv_guard) simp_all
  let ?res = "\<lparr>similarity = (if ?total > 0 then nearest_double (of_int (?total - int (length new)) / of_int ?total) else 0),
               total_cells = ?total,
               different_cells = int (length new),
               identical_cells = ?total - int (length new),
               cell_differences = new,
               file_info =
                 (\<lparr>fe_path = base_file, fe_size = s1, fe_rows = df_len d1,
                   fe_columns = length (columns d1), fe_encoding = e1\<rparr>,
                  \<lparr>fe_path = target_file, fe_size = s2, fe_rows = df_len d2,
                   fe_columns = length (columns d2), fe_encoding = e2\<rparr>),
               summary =
                 \<lparr>accuracy = (if ?total > 0 then nearest_double (of_int (?total - int (length new)) / of_int ?total) else 0),
                  s_total_cells = ?total,
                  s_identical_cells = ?total - int (length new),
                  s_different_cells = int (length new),
                  difference_rate = (if ?total > 0 then nearest_double (of_int (int (length new)) / of_int ?total) else 0)\<rparr>\<rparr>"
  have "compare_files self P fs base_file target_file = Inr ?res"
    unfolding compare_files_def
    by (simp only: assms(1,2,6-10) loop g1 g2 Let_def prod.case sum.case)
  moreover have "total_cells ?res = int (length (rows d1)) * int (length (columns d1))"
    by (simp add: df_len_def)
  ultimately show ?thesis
    using new(2,3) by (intro exI [of _ ?res]) (simp add: df_len_def)
qed

text \<open>
  C5: when the two files load, the comparison returns a result whose total is the number
  of rows times the number of columns of the aligned frames; its differences are exactly
  the cells whose normalized values differ, its different count their number, and its
  identical count the total minus that, the number of the cells whose normalized values
  are equal; its similarity is the identical count divided by the total as Python
  divides, the float nearest to the quotient and so within \<open>2 ^ - 53\<close> of it; for a total
  of zero the similarity is zero and no ZeroDivisionError is raised.
\<close>

theorem compare_files_similarity:
  assumes "load_csv fs base_file = Inr df1" and "load_csv fs target_file = Inr df2"
    and "wf_frame df1" and "wf_frame df2"
    and "set (set_order P (columns df1 @ columns df2)) = set (columns df1) \<union> set (columns df2)"
    and "stat_size fs base_file = Inr s1" and "detect_encoding fs base_file = Inr e1"
    and "stat_size fs target_file = Inr s2" and "detect_encoding fs target_file = Inr e2"
    and "normalize_dataframes P df1 df2 = (d1, d2)"
  shows "\<exists>res. compare_files self P fs base_file target_file = Inr res
      \<and> total_cells res = int (df_len d1) * int (length (columns d1))
      \<and> total_cells res =
          int (max (length (rows df1)) (length (rows df2))) *
          int (card (set (columns df1) \<union> set (columns df2)))
      \<and> map (\<lambda>d. (row d, col d)) (cell_differences res) =
          filter (\<lambda>(r, j). normalized self P (py_str (rows d1 ! r ! j)) \<noteq>
                            normalized self P (py_str (rows d2 ! r ! j)))
                 (List.product [0..<df_len d1] [0..<length (columns d1)])
      \<and> different_cells res =
          int (length (filter (\<lambda>(r, j). normalized self P (py_str (rows d1 ! r ! j)) \<noteq>
                                         normalized self P (py_str (rows d2 ! r ! j)))
                              (List.product [0..<df_len d1] [0..<length (columns d1)])))
      \<and> identical_cells res =
          int (length (filter (\<lambda>(r, j). normalized self P (py_str (rows d1 ! r ! j)) =
                                         normalized self P (py_str (rows d2 ! r ! j)))
                              (List.product [0..<df_len d1] [0..<length (columns d1)])))
      \<and> different_cells res \<le> total_cells res
      \<and> identical_cells res = total_cells res - different_cells res
      \<and> similarity res =
          (if total_cells res > 0
           then nearest_double (of_int (identical_cells res) / of_int (total_cells res))
           else 0)
      \<and> (total_cells res > 0 \<longrightarrow>
           \<bar>similarity res - of_int (identical_cells res) / of_int (total_cells res)\<bar>
             \<le> 1 / 2 ^ 53)
      \<and> (total_cells res = 0 \<longrightarrow> similarity res = 0)"
proof -
  note al = normalize_dataframes_props [OF assms(3,4,5,10)]
  let ?cells = "List.product [0..<df_len d1] [0..<length (columns d1)]"
  let ?D = "\<lambda>(r, j). normalized self P (py_str (rows d1 ! r ! j)) \<noteq>
                      normalized self P (py_str (rows d2 ! r ! j))"
  let ?E = "\<lambda>(r, j). normalized self P (py_str (rows d1 ! r ! j)) =
                      normalized self P (py_str (rows d2 ! r ! j))"
  obtain res where res: "compare_files self P fs base_file target_file = Inr res"
    "total_cells res = int (length (rows d1)) * int (length (columns d1))"
    "different_cells res = int (length (cell_differences res))"
    "identical_cells res = total_cells res - different_cells res"
    "similarity res =
       (if total_cells res > 0
        then nearest_double (of_int (identical_cells res) / of_int (total_cells res)) else 0)"
    "map (\<lambda>d. (row d, col d)) (cell_differences res) =
       filter (\<lambda>(r, j). cell_differs self P d1 d2 r j)
              (List.product [0..<length (rows d1)] [0..<length (columns d1)])"
    using compare_files_spec [OF assms, of self] by blast
  have "(\<lambda>(r, j). cell_differs self P d1 d2 r j) = ?D"
    by (simp add: cell_differs_def fun_eq_iff)
  with res(6) have pos: "map (\<lambda>d. (row d, col d)) (cell_differences res) = filter ?D ?cells"
    by (simp add: df_len_def)
  have "length (cell_differences res) = length (map (\<lambda>d. (row d, col d)) (cell_differences res))"
    by simp
  then have dc: "different_cells res = int (length (filter ?D ?cells))"
    unfolding res(3) pos by simp
  have t1: "total_cells res = int (df_len d1) * int (length (columns d1))"
    using res(2) by (simp add: df_len_def)
  have tl: "total_cells res = int (length ?cells)"
    using t1 by simp
  have "length (filter ?D ?cells) + length (filter (\<lambda>x. \<not> ?D x) ?cells) = length ?cells"
    by (rule sum_length_filter_compl)
  moreover have "(\<lambda>x. \<not> ?D x) = ?E"
    by (simp add: fun_eq_iff)
  ultimately have sum: "length (filter ?D ?cells) + length (filter ?E ?cells) = length ?cells"
    by simp
  have ic: "identical_cells res = int (length (filter ?E ?cells))"
    unfolding res(4) dc tl using sum by linarith
  have le: "different_cells res \<le> total_cells res"
    unfolding dc tl using sum by linarith
  have "length (columns d1) = card (set (columns df1) \<union> set (columns df2))"
  proof -
    have "length (columns d1) = length (remdups (columns df1 @ columns df2))"
      using al by simp
    also have "\<dots> = card (set (columns df1 @ columns df2))"
      by (rule length_remdups_card_conv)
    finally show ?thesis by simp
  qed
  then have t2: "total_cells res =
          int (max (length (rows df1)) (length (rows df2))) *
          int (card (set (columns df1) \<union> set (columns df2)))"
    using res(2) al by simp
  have close: "\<bar>similarity res - of_int (identical_cells res) / of_int (total_cells res)\<bar>
             \<le> 1 / 2 ^ 53" if "total_cells res > 0"
  proof -
    let ?q = "of_int (identical_cells res) / of_int (total_cells res) :: rat"
    have "0 \<le> identical_cells res" "identical_cells res \<le> total_cells res"
      using le res(3,4) by simp_all
    with that have "0 \<le> ?q" "?q \<le> 1" by simp_all
    from nearest_double_close [OF this] that res(5) show ?thesis by simp
  qed
  from res(1,4,5) t1 t2 pos dc ic le close show ?thesis
    by (intro exI [of _ res]) simp
qed

theorem compare_files_similarity_witness:
  "\<forall>self P.
    (\<exists>res.
       compare_files \<lparr>ignore_case = False, ignore_whitespace = False\<rparr> (P\<lparr>set_order := remdups\<rparr>)
         \<lparr>load_csv = (\<lambda>p. if p = [0x78]
              then Inr \<lparr>columns = [[0x6B]], rows = [[Str [0x61]], [Str [0x62]], [Str [0x63]]]\<rparr>
              else Inr \<lparr>columns = [[0x6B]], rows = [[Str [0x61]], [Str [0x7A]], [Str [0x63]]]\<rparr>),
          stat_size = (\<lambda>_. Inr 8), detect_encoding = (\<lambda>_. Inr ''ascii'')\<rparr>
         [0x78] [0x79] = Inr res
       \<and> total_cells res = 3 \<and> different_cells res = 1 \<and> identical_cells res = 2
       \<and> map (\<lambda>d. (row d, col d)) (cell_differences res) = [(1, 0)]
       \<and> similarity res = 6004799503160661 / 9007199254740992)
    \<and> (\<exists>res.
       compare_files self (P\<lparr>set_order := remdups\<rparr>)
         \<lparr>load_csv = (\<lambda>_. Inr \<lparr>columns = [[0x61], [0x62]], rows = []\<rparr>),
          stat_size = (\<lambda>_. Inr 4), detect_encoding = (\<lambda>_. Inr ''ascii'')\<rparr>
         [0x78] [0x79] = Inr res
       \<and> total_cells res = 0 \<and> different_cells res = 0 \<and> similarity res = 0)"
proof (intro allI conjI)
  fix P :: platform
  let ?self = "\<lparr>ignore_case = False, ignore_whitespace = False\<rparr>"
  let ?P = "P\<lparr>set_order := remdups\<rparr>"
  let ?a = "\<lparr>columns = [[0x6B]], rows = [[Str [0x61]], [Str [0x62]], [Str [0x63]]]\<rparr> :: dataframe"
  let ?b = "\<lparr>columns = [[0x6B]], rows = [[Str [0x61]], [Str [0x7A]], [Str [0x63]]]\<rparr> :: dataframe"
  let ?fs = "\<lparr>load_csv = (\<lambda>p. if p = [0x78] then Inr ?a else Inr ?b),
          stat_size = (\<lambda>_. Inr 8), detect_encoding = (\<lambda>_. Inr ''ascii'')\<rparr>"
  have l: "load_csv ?fs [0x78] = Inr ?a" "load_csv ?fs [0x79] = Inr ?b" by simp_all
  have w: "wf_frame ?a" "wf_frame ?b" by (simp_all add: wf_frame_def)
  have so: "set (set_order ?P (columns ?a @ columns ?b)) = set (columns ?a) \<union> set (columns ?b)"
    by auto
  have st: "stat_size ?fs [0x78] = Inr 8" "detect_encoding ?fs [0x78] = Inr ''ascii''"
    "stat_size ?fs [0x79] = Inr 8" "detect_encoding ?fs [0x79] = Inr ''ascii''"
    by simp_all
  have n: "normalize_dataframes ?P ?a ?b = (?a, ?b)"
    unfolding normalize_dataframes_spec [OF w so]
    by (simp add: aligned_rows_def row_get_def)
  have cells: "List.product [0..<df_len ?a] [0..<length (columns ?a)] = [(0, 0), (1, 0), (2, 0)]"
    by (simp add: df_len_def upt_rec)
  have nd: "nearest_double (2 / 3) = 6004799503160661 / 9007199254740992"
    by code_simp
  from compare_files_similarity [OF l w so st n, of ?self]
  obtain res where res: "compare_files ?self ?P ?fs [0x78] [0x79] = Inr res"
    "total_cells res = int (df_len ?a) * int (length (columns ?a))"
    "map (\<lambda>d. (row d, col d)) (cell_differences res) =
       filter (\<lambda>(r, j). normalized ?self ?P (py_str (rows ?a ! r ! j)) \<noteq>
                         normalized ?self ?P (py_str (rows ?b ! r ! j)))
              (List.product [0..<df_len ?a] [0..<length (columns ?a)])"
    "different_cells res =
       int (length (filter (\<lambda>(r, j). normalized ?self ?P (py_str (rows ?a ! r ! j)) \<noteq>
                                      normalized ?self ?P (py_str (rows ?b ! r ! j)))
              (List.product [0..<df_len ?a] [0..<length (columns ?a)])))"
    "identical_cells res = total_cells res - different_cells res"
    "similarity res =
       (if total_cells res > 0
        then nearest_double (of_int (identical_cells res) / of_int (total_cells res)) else 0)"
    by blast
  have t: "total_cells res = 3" using res(2) by (simp add: df_len_def)
  have p: "map (\<lambda>d. (row d, col d)) (cell_differences res) = [(1, 0)]"
    unfolding res(3) cells by (simp add: normalized_def)
  have d: "different_cells res = 1"
    unfolding res(4) cells by (simp add: normalized_def)
  have i: "identical_cells res = 2" using res(5) t d by simp
  have s: "similarity res = 6004799503160661 / 9007199254740992"
    using res(6) t i nd by simp
  from res(1) t d i p s
  show "\<exists>res. compare_files ?self ?P ?fs [0x78] [0x79] = Inr res
       \<and> total_cells res = 3 \<and> different_cells res = 1 \<and> identical_cells res = 2
       \<and> map (\<lambda>d. (row d, col d)) (cell_differences res) = [(1, 0)]
       \<and> similarity res = 6004799503160661 / 9007199254740992"
    by (intro exI [of _ res]) simp
next
  fix self :: comparator and P :: platform
  let ?P = "P\<lparr>set_order := remdups\<rparr>"
  let ?df = "\<lparr>columns = [[0x61], [0x62]], rows = []\<rparr> :: dataframe"
  let ?fs = "\<lparr>load_csv = (\<lambda>_. Inr ?df),
        stat_size = (\<lambda>_. Inr 4), detect_encoding = (\<lambda>_. Inr ''ascii'')\<rparr>"
  have l: "load_csv ?fs [0x78] = Inr ?df" "load_csv ?fs [0x79] = Inr ?df" by simp_all
  have w: "wf_frame ?df" by (simp add: wf_frame_def)
  have so: "set (set_order ?P (columns ?df @ columns ?df)) = set (columns ?df) \<union> set (columns ?df)"
    by auto
  have st: "stat_size ?fs [0x78] = Inr 4" "detect_encoding ?fs [0x78] = Inr ''ascii''"
    "stat_size ?fs [0x79] = Inr 4" "detect_encoding ?fs [0x79] = Inr ''ascii''"
    by simp_all
  obtain d1 d2 where n: "normalize_dataframes ?P ?df ?df = (d1, d2)"
    by (cases "normalize_dataframes ?P ?df ?df")
  from compare_files_similarity [OF l w w so st n, of self]
  obtain res where res: "compare_files self ?P ?fs [0x78] [0x79] = Inr res"
    "total_cells res = int (max (length (rows ?df)) (length (rows ?df))) *
          int (card (set (columns ?df) \<union> set (columns ?df)))"
    "different_cells res \<le> total_cells res"
    "identical_cells res = total_cells res - different_cells res"
    "total_cells res = 0 \<longrightarrow> similarity res = 0"
    "different_cells res =
       int (length (filter (\<lambda>(r, j). normalized self ?P (py_str (rows d1 ! r ! j)) \<noteq>
                                      normalized self ?P (py_str (rows d2 ! r ! j)))
              (List.product [0..<df_len d1] [0..<length (columns d1)])))"
    by blast
  from res(2) have t: "total_cells res = 0" by simp
  with res(3,6) have "different_cells res = 0" by simp
  with res(1,5) t show "\<exists>res. compare_files self ?P ?fs [0x78] [0x79] = Inr res
     \<and> total_cells res = 0 \<and> different_cells res = 0 \<and> similarity res = 0"
    by blast
qed

subsection \<open>batch_compare\<close>

lemma batch_loop_step:
  "batch_loop self P fs b (t # ts) results =
   batch_loop self P fs b ts (dict_set results t (outcome self P fs b t))"
  by (simp add: outcome_def split: sum.splits)

lemma dict_set_keys:
  "map fst (dict_set d k v) = (if k \<in> set (map fst d) then map fst d else map fst d @ [k])"
  by (induction d k v rule: dict_set.induct) auto

lemma dict_set_new: "k \<notin> set (map fst d) \<Longrightarrow> dict_set d k v = d @ [(k, v)]"
  by (induction d k v rule: dict_set.induct) auto

lemma batch_loop_values:
  "map_of (batch_loop self P fs b ts results) t =
   (if t \<in> set ts then Some (outcome self P fs b t) else map_of results t)"
proof (induction ts arbitrary: results)
  case Nil
  show ?case by simp
next
  case (Cons u ts)
  show ?case
    unfolding batch_loop_step Cons.IH by (simp add: map_of_dict_set)
qed

lemma batch_loop_fold:
  "batch_loop self P fs b ts results =
   fold (\<lambda>t d. dict_set d t (outcome self P fs b t)) ts results"
  by (induction ts arbitrary: results) (simp_all only: batch_loop_step batch_loop.simps fold_simps)

lemma fold_dict_set_keys:
  "map fst (fold (\<lambda>t d. dict_set d t (f t)) ts []) = rev (remdups (rev ts))"
proof (induction ts rule: rev_induct)
  case Nil
  show ?case by simp
next
  case (snoc t ts)
  then have "set (map fst (fold (\<lambda>t d. dict_set d t (f t)) ts [])) = set ts"
    by simp
  with snoc show ?case
    by (simp add: dict_set_keys del: set_map)
qed

lemma batch_loop_distinct:
  "distinct ts \<Longrightarrow> set ts \<inter> set (map fst results) = {} \<Longrightarrow>
   batch_loop self P fs b ts results = results @ map (\<lambda>t. (t, outcome self P fs b t)) ts"
proof (induction ts arbitrary: results)
  case Nil
  show ?case by simp
next
  case (Cons u ts)
  from Cons.prems have u: "u \<notin> set (map fst results)" by auto
  then have d: "dict_set results u (outcome self P fs b u) = results @ [(u, outcome self P fs b u)]"
    by (rule dict_set_new)
  from Cons.prems have "distinct ts"
    and "set ts \<inter> set (map fst (results @ [(u, outcome self P fs b u)])) = {}"
    by auto
  from Cons.IH [OF this] show ?case
    unfolding batch_loop_step d by simp
qed

text \<open>
  C6: the batch compares every target with the same base by a call of its own; the keys of
  the result are the targets in the order of their first occurrence in the input; a
  target whose comparison raises is mapped to \<open>None\<close> and every other target to its
  result, whatever the other targets do; for distinct targets the result is the list of
  the targets, in input order, each with its own outcome.
\<close>

theorem batch_compare_isolates:
  "map fst (batch_compare self P fs base_file targets) = rev (remdups (rev targets))
   \<and> (\<forall>t\<in>set targets.
        map_of (batch_compare self P fs base_file targets) t =
        Some (case compare_files self P fs base_file t of Inl e \<Rightarrow> None | Inr r \<Rightarrow> Some r))
   \<and> (distinct targets \<longrightarrow>
        batch_compare self P fs base_file targets =
        map (\<lambda>t. (t, case compare_files self P fs base_file t of
                        Inl e \<Rightarrow> None | Inr r \<Rightarrow> Some r)) targets)"
proof (intro conjI ballI impI)
  show "map fst (batch_compare self P fs base_file targets) = rev (remdups (rev targets))"
    by (simp only: batch_compare_def batch_loop_fold fold_dict_set_keys)
next
  fix t assume "t \<in> set targets"
  then show "map_of (batch_compare self P fs base_file targets) t =
        Some (case compare_files self P fs base_file t of Inl e \<Rightarrow> None | Inr r \<Rightarrow> Some r)"
    by (simp add: batch_compare_def batch_loop_values outcome_def)
next
  assume "distinct targets"
  then have "batch_loop self P fs base_file targets [] =
      [] @ map (\<lambda>t. (t, outcome self P fs base_file t)) targets"
    by (intro batch_loop_distinct) simp_all
  then show "batch_compare self P fs base_file targets =
        map (\<lambda>t. (t, case compare_files self P fs base_file t of
                        Inl e \<Rightarrow> None | Inr r \<Rightarrow> Some r)) targets"
    by (simp add: batch_compare_def outcome_def)
qed

theorem batch_compare_isolates_witness:
  "\<forall>self P. \<exists>r1 r3.
     batch_compare self (P\<lparr>set_order := remdups\<rparr>)
       \<lparr>load_csv = (\<lambda>p. if p = [0x62] then Inl (LoaderException [0x3F])
                          else Inr \<lparr>columns = [[0x6B]], rows = [[Str [0x31]]]\<rparr>),
        stat_size = (\<lambda>_. Inr 4), detect_encoding = (\<lambda>_. Inr ''ascii'')\<rparr>
       [0x7A] [[0x61], [0x62], [0x63]]
     = [([0x61], Some r1), ([0x62], None), ([0x63], Some r3)]"
proof (intro allI)
  fix self :: comparator and P :: platform
  let ?P = "P\<lparr>set_order := remdups\<rparr>"
  let ?df = "\<lparr>columns = [[0x6B]], rows = [[Str [0x31]]]\<rparr> :: dataframe"
  let ?fs = "\<lparr>load_csv = (\<lambda>p. if p = [0x62] then Inl (LoaderException [0x3F]) else Inr ?df),
        stat_size = (\<lambda>_. Inr 4), detect_encoding = (\<lambda>_. Inr ''ascii'')\<rparr>"
  have w: "wf_frame ?df" by (simp add: wf_frame_def)
  have so: "set (set_order ?P (columns ?df @ columns ?df)) = set (columns ?df) \<union> set (columns ?df)"
    by auto
  obtain d1 d2 where n: "normalize_dataframes ?P ?df ?df = (d1, d2)"
    by (cases "normalize_dataframes ?P ?df ?df")
  have ok: "\<exists>r. compare_files self ?P ?fs [0x7A] t = Inr r" if "t \<noteq> [0x62]" for t
  proof -
    have l: "load_csv ?fs [0x7A] = Inr ?df" "load_csv ?fs t = Inr ?df"
      using that by simp_all
    have st: "stat_size ?fs [0x7A] = Inr 4" "detect_encoding ?fs [0x7A] = Inr ''ascii''"
      "stat_size ?fs t = Inr 4" "detect_encoding ?fs t = Inr ''ascii''"
      by simp_all
    from compare_files_spec [OF l w w so st n, of self] show ?thesis by blast
  qed
  obtain r1 where r1: "compare_files self ?P ?fs [0x7A] [0x61] = Inr r1"
    using ok [of "[0x61]"] by auto
  obtain r3 where r3: "compare_files self ?P ?fs [0x7A] [0x63] = Inr r3"
    using ok [of "[0x63]"] by auto
  have r2: "compare_files self ?P ?fs [0x7A] [0x62] = Inl (LoaderException [0x3F])"
    by (simp add: compare_files_def)
  have "distinct [[0x61], [0x62], [0x63::nat]]" by simp
  with batch_compare_isolates [of self ?P ?fs "[0x7A]" "[[0x61], [0x62], [0x63]]"]
  have "batch_compare self ?P ?fs [0x7A] [[0x61], [0x62], [0x63]] =
        map (\<lambda>t. (t, case compare_files self ?P ?fs [0x7A] t of
                        Inl e \<Rightarrow> None | Inr r \<Rightarrow> Some r)) [[0x61], [0x62], [0x63]]"
    by blast
  then have "batch_compare self ?P ?fs [0x7A] [[0x61], [0x62], [0x63]] =
     [([0x61], Some r1), ([0x62], None), ([0x63], Some r3)]"
    by (simp only: list.map r1 r2 r3 sum.case)
  then show "\<exists>r1 r3. batch_compare self ?P ?fs [0x7A] [[0x61], [0x62], [0x63]] =
     [([0x61], Some r1), ([0x62], None), ([0x63], Some r3)]"
    by blast
qed

subsection \<open>Recorded values\<close>

text \<open>
  C4: the decision of \<open>compare_cells\<close> is the equality of the normalized values (the
  trimmed values when only whitespace is ignored), so "foo " and "foo" are identical;
  the comparison of two files records a difference exactly for the cells whose normalized
  values differ, and each record carries the values of the two cells as they stand in the
  aligned frames, not normalized, while its analysis is that of the normalized values.
\<close>

theorem compare_records_keep_originals:
  assumes "load_csv fs base_file = Inr df1" and "load_csv fs target_file = Inr df2"
    and "wf_frame df1" and "wf_frame df2"
    and "set (set_order P (columns df1 @ columns df2)) = set (columns df1) \<union> set (columns df2)"
    and "stat_size fs base_file = Inr s1" and "detect_encoding fs base_file = Inr e1"
    and "stat_size fs target_file = Inr s2" and "detect_encoding fs target_file = Inr e2"
    and "normalize_dataframes P df1 df2 = (d1, d2)"
  shows "(\<exists>c. compare_cells self P v1 v2 = Inr c
            \<and> fst c = (normalized self P v1 = normalized self P v2))
     \<and> (ignore_whitespace self \<and> \<not> ignore_case self \<longrightarrow> normalized self P v1 = py_strip v1)
     \<and> compare_cells \<lparr>ignore_case = False, ignore_whitespace = True\<rparr> P
          [0x66, 0x6F, 0x6F, 0x20] [0x66, 0x6F, 0x6F] = Inr (True, None)
     \<and> (\<exists>res. compare_files self P fs base_file target_file = Inr res
          \<and> map (\<lambda>d. (row d, col d)) (cell_differences res) =
              filter (\<lambda>(r, j). normalized self P (py_str (rows d1 ! r ! j)) \<noteq>
                                normalized self P (py_str (rows d2 ! r ! j)))
                     (List.product [0..<length (rows d1)] [0..<length (columns d1)])
          \<and> (\<forall>d\<in>set (cell_differences res).
                original d = py_str (rows d1 ! row d ! col d)
                \<and> target d = py_str (rows d2 ! row d ! col d)
                \<and> (\<exists>a. analyze_difference P (normalized self P (original d))
                                              (normalized self P (target d)) = Inr a
                       \<and> unicode_analysis d = Some a)))"
proof (intro conjI impI)
  obtain a where "analyze_difference P (normalized self P v1) (normalized self P v2) = Inr a"
    using analyze_difference_total by blast
  then show "\<exists>c. compare_cells self P v1 v2 = Inr c
            \<and> fst c = (normalized self P v1 = normalized self P v2)"
    by (simp add: compare_cells_spec)
next
  assume "ignore_whitespace self \<and> \<not> ignore_case self"
  then show "normalized self P v1 = py_strip v1"
    by (simp add: normalized_def)
next
  show "compare_cells \<lparr>ignore_case = False, ignore_whitespace = True\<rparr> P
          [0x66, 0x6F, 0x6F, 0x20] [0x66, 0x6F, 0x6F] = Inr (True, None)"
    by (simp add: compare_cells_spec normalized_def py_strip_def isspace_cp_def)
next
  obtain res where res: "compare_files self P fs base_file target_file = Inr res"
    "map (\<lambda>d. (row d, col d)) (cell_differences res) =
       filter (\<lambda>(r, j). cell_differs self P d1 d2 r j)
              (List.product [0..<length (rows d1)] [0..<length (columns d1)])"
    "\<forall>d\<in>set (cell_differences res). cell_record self P d1 d2 d"
    using compare_files_spec [OF assms, of self] by blast
  have "(\<lambda>(r, j). cell_differs self P d1 d2 r j) =
        (\<lambda>(r, j). normalized self P (py_str (rows d1 ! r ! j)) \<noteq>
                   normalized self P (py_str (rows d2 ! r ! j)))"
    by (simp add: cell_differs_def fun_eq_iff)
  with res(2) have pos: "map (\<lambda>d. (row d, col d)) (cell_differences res) =
              filter (\<lambda>(r, j). normalized self P (py_str (rows d1 ! r ! j)) \<noteq>
                                normalized self P (py_str (rows d2 ! r ! j)))
                     (List.product [0..<length (rows d1)] [0..<length (columns d1)])"
    by simp
  have recs: "\<forall>d\<in>set (cell_differences res).
                original d = py_str (rows d1 ! row d ! col d)
                \<and> target d = py_str (rows d2 ! row d ! col d)
                \<and> (\<exists>a. analyze_difference P (normalized self P (original d))
                                              (normalized self P (target d)) = Inr a
                       \<and> unicode_analysis d = Some a)"
    using res(3) unfolding cell_record_def by blast
  from res(1) pos recs show "\<exists>res. compare_files self P fs base_file target_file = Inr res
          \<and> map (\<lambda>d. (row d, col d)) (cell_differences res) =
              filter (\<lambda>(r, j). normalized self P (py_str (rows d1 ! r ! j)) \<noteq>
                                normalized self P (py_str (rows d2 ! r ! j)))
                     (List.product [0..<length (rows d1)] [0..<length (columns d1)])
          \<and> (\<forall>d\<in>set (cell_differences res).
                original d = py_str (rows d1 ! row d ! col d)
                \<and> target d = py_str (rows d2 ! row d ! col d)
                \<and> (\<exists>a. analyze_difference P (normalized self P (original d))
                                              (normalized self P (target d)) = Inr a
                       \<and> unicode_analysis d = Some a))"
    by blast
qed

theorem compare_records_keep_originals_witness:
  "\<forall>P. \<exists>res.
     compare_files \<lparr>ignore_case = False, ignore_whitespace = True\<rparr> (P\<lparr>set_order := remdups\<rparr>)
       \<lparr>load_csv = (\<lambda>p. if p = [0x78]
            then Inr \<lparr>columns = [[0x6B], [0x76]],
                      rows = [[Str [0x66, 0x6F, 0x6F, 0x20], Str [0x61, 0x20]]]\<rparr>
            else Inr \<lparr>columns = [[0x6B], [0x76]],
                      rows = [[Str [0x66, 0x6F, 0x6F], Str [0x62]]]\<rparr>),
        stat_size = (\<lambda>_. Inr 9), detect_encoding = (\<lambda>_. Inr ''ascii'')\<rparr>
       [0x78] [0x79] = Inr res
     \<and> map (\<lambda>d. (row d, col d, original d, target d)) (cell_differences res) =
         [(0, 1, [0x61, 0x20], [0x62])]"
proof (intro allI)
  fix P :: platform
  let ?self = "\<lparr>ignore_case = False, ignore_whitespace = True\<rparr>"
  let ?P = "P\<lparr>set_order := remdups\<rparr>"
  let ?a = "\<lparr>columns = [[0x6B], [0x76]],
             rows = [[Str [0x66, 0x6F, 0x6F, 0x20], Str [0x61, 0x20]]]\<rparr> :: dataframe"
  let ?b = "\<lparr>columns = [[0x6B], [0x76]],
             rows = [[Str [0x66, 0x6F, 0x6F], Str [0x62]]]\<rparr> :: dataframe"
  let ?fs = "\<lparr>load_csv = (\<lambda>p. if p = [0x78] then Inr ?a else Inr ?b),
        stat_size = (\<lambda>_. Inr 9), detect_encoding = (\<lambda>_. Inr ''ascii'')\<rparr>"
  have l: "load_csv ?fs [0x78] = Inr ?a" "load_csv ?fs [0x79] = Inr ?b" by simp_all
  have w: "wf_frame ?a" "wf_frame ?b" by (simp_all add: wf_frame_def)
  have so: "set (set_order ?P (columns ?a @ columns ?b)) = set (columns ?a) \<union> set (columns ?b)"
    by auto
  have st: "stat_size ?fs [0x78] = Inr 9" "detect_encoding ?fs [0x78] = Inr ''ascii''"
    "stat_size ?fs [0x79] = Inr 9" "detect_encoding ?fs [0x79] = Inr ''ascii''"
    by simp_all
  have n: "normalize_dataframes ?P ?a ?b = (?a, ?b)"
    unfolding normalize_dataframes_spec [OF w so]
    by (simp add: aligned_rows_def row_get_def)
  have upt: "[0..<Suc 0] = [0]" "[0..<2] = [0, Suc 0]"
    by (simp_all add: upt_rec)
  from compare_records_keep_originals [OF l w so st n, of ?self]
  obtain res where res: "compare_files ?self ?P ?fs [0x78] [0x79] = Inr res"
    "map (\<lambda>d. (row d, col d)) (cell_differences res) =
       filter (\<lambda>(r, j). normalized ?self ?P (py_str (rows ?a ! r ! j)) \<noteq>
                         normalized ?self ?P (py_str (rows ?b ! r ! j)))
              (List.product [0..<length (rows ?a)] [0..<length (columns ?a)])"
    "\<forall>d\<in>set (cell_differences res).
        original d = py_str (rows ?a ! row d ! col d)
        \<and> target d = py_str (rows ?b ! row d ! col d)"
    by blast
  have pos: "map (\<lambda>d. (row d, col d)) (cell_differences res) = [(0, 1)]"
    unfolding res(2) by (simp add: upt normalized_def py_strip_def isspace_cp_def)
  then obtain d where d: "cell_differences res = [d]"
    by (cases "cell_differences res") auto
  with pos have rc: "row d = 0" "col d = 1" by simp_all
  from res(3) d rc have "original d = [0x61, 0x20]" "target d = [0x62]"
    by simp_all
  with res(1) d rc show "\<exists>res. compare_files ?self ?P ?fs [0x78] [0x79] = Inr res
     \<and> map (\<lambda>d. (row d, col d, original d, target d)) (cell_differences res) =
         [(0, 1, [0x61, 0x20], [0x62])]"
    by simp
qed


end
